theory Spec2Isabelle
  imports Complex_Main "HOL-Library.Sublist"
begin

section \<open>JavaScript strings and numbers\<close>

text \<open>
  A JavaScript string is modelled by the list of its code units, for the code units below
  256. The white space of \<open>String.prototype.trim\<close>, of \<open>parseInt\<close> and of the regular
  expression class \<open>\s\<close> has seven members in that range: tab, line feed, vertical tab,
  form feed, carriage return, space and the no-break space.
\<close>

definition is_space :: "char \<Rightarrow> bool" where
  "is_space c \<longleftrightarrow>
     c \<in> set [CHR 0x09, CHR 0x0A, CHR 0x0B, CHR 0x0C, CHR 0x0D, CHR 0x20, CHR 0xA0]"

definition is_digit :: "char \<Rightarrow> bool" where
  "is_digit c \<longleftrightarrow> c \<in> set ''0123456789''"

definition js_trim :: "string \<Rightarrow> string" where
  "js_trim s = rev (dropWhile is_space (rev (dropWhile is_space s)))"

text \<open>
  \<open>toLowerCase\<close> on one code unit: the letters \<open>A\<close> to \<open>Z\<close> and the upper-case letters of
  the Latin-1 block (all of \<open>0xC0 .. 0xDE\<close> but the multiplication sign) move up by 32.
\<close>

definition to_lower :: "char \<Rightarrow> char" where
  "to_lower c =
     (let n = (of_char c :: nat)
      in if (65 \<le> n \<and> n \<le> 90) \<or> (192 \<le> n \<and> n \<le> 222 \<and> n \<noteq> 215)
         then char_of (n + 32) else c)"

definition toLowerCase :: "string \<Rightarrow> string" where
  "toLowerCase s = map to_lower s"

text \<open>\<open>s.includes(sub)\<close>: \<open>sub\<close> occurs in \<open>s\<close> as a contiguous block.\<close>

fun js_includes :: "string \<Rightarrow> string \<Rightarrow> bool" where
  "js_includes [] sub = (sub = [])"
| "js_includes (c # cs) sub = (prefix sub (c # cs) \<or> js_includes cs sub)"

text \<open>
  A JavaScript number, as far as the code computes with it: a rational value or \<open>NaN\<close>.
  The relational operators are false as soon as one side is \<open>NaN\<close>; \<open>undefined\<close>
  converts to \<open>NaN\<close> in a comparison, so a missing numeric field is \<open>NaN\<close> too.
\<close>

datatype jsnum = Num rat | NaN

fun js_lt :: "jsnum \<Rightarrow> jsnum \<Rightarrow> bool" where
  "js_lt (Num a) (Num b) = (a < b)"
| "js_lt _ _ = False"

fun js_gt :: "jsnum \<Rightarrow> jsnum \<Rightarrow> bool" where
  "js_gt (Num a) (Num b) = (a > b)"
| "js_gt _ _ = False"

text \<open>
  \<open>parseInt(s, 10)\<close>: leading white space is skipped, one sign is read, then the longest
  run of decimal digits; without a digit the result is \<open>NaN\<close>.
\<close>

definition digit_val :: "char \<Rightarrow> nat" where
  "digit_val c = of_char c - 48"

definition parseInt :: "string \<Rightarrow> jsnum" where
  "parseInt s =
     (let t = dropWhile is_space s;
          neg = (case t of [] \<Rightarrow> False | c # _ \<Rightarrow> c = CHR ''-'');
          u = (case t of [] \<Rightarrow> [] | c # r \<Rightarrow> if c = CHR ''-'' \<or> c = CHR ''+'' then r else t);
          ds = takeWhile is_digit u;
          n = foldl (\<lambda>a c. 10 * a + digit_val c) 0 ds
      in if ds = [] then NaN
         else Num (if neg then - rat_of_nat n else rat_of_nat n))"

text \<open>\<open>x || ''\<close> on a string that may be missing.\<close>

definition or_empty :: "string option \<Rightarrow> string" where
  "or_empty x = (case x of None \<Rightarrow> [] | Some s \<Rightarrow> s)"

section \<open>RateLimiter (docs/js/utils/rateLimiter.js)\<close>

text \<open>
  The limiter object: its two configuration fields and the \<open>attempts\<close> map from a client
  key to the array of recorded timestamps. Timestamps are the integral milliseconds of
  \<open>Date.now()\<close>; the clock value is passed to every operation that reads it.
\<close>

record rate_limiter =
  maxAttempts :: int
  windowMs :: int
  attempts :: "string \<rightharpoonup> int list"

text \<open>
  The object returned by \<open>isAllowed\<close>. \<open>retryAfter\<close> is \<open>None\<close> where JavaScript
  computes \<open>NaN\<close>: \<open>validAttempts[0]\<close> is \<open>undefined\<close> on an empty array, and \<open>Math.ceil\<close>
  and \<open>Math.max\<close> propagate the resulting \<open>NaN\<close>.
\<close>

datatype rl_result =
  Denied (retryAfter: "int option") (deniedAttempts: nat) (deniedMax: int)
| Allowed (allowedAttempts: nat) (allowedMax: int) (remainingAttempts: int)

definition new_RateLimiter :: "int \<Rightarrow> int \<Rightarrow> rate_limiter" where
  "new_RateLimiter m w = \<lparr>maxAttempts = m, windowMs = w, attempts = Map.empty\<rparr>"

text \<open>\<open>Math.ceil(x / 1000)\<close> on an integral \<open>x\<close>, computed exactly.\<close>

definition ceil_div_1000 :: "int \<Rightarrow> int" where
  "ceil_div_1000 x = \<lceil>rat_of_int x / 1000\<rceil>"

definition getAttempts :: "rate_limiter \<Rightarrow> string \<Rightarrow> int list" where
  "getAttempts rl key = (case attempts rl key of None \<Rightarrow> [] | Some l \<Rightarrow> l)"

definition validAt :: "rate_limiter \<Rightarrow> int \<Rightarrow> int list \<Rightarrow> int list" where
  "validAt rl now l = filter (\<lambda>timestamp. now - timestamp < windowMs rl) l"

definition isAllowed :: "int \<Rightarrow> string \<Rightarrow> rate_limiter \<Rightarrow> rl_result \<times> rate_limiter" where
  "isAllowed now key rl =
     (let userAttempts = getAttempts rl key;
          validAttempts = validAt rl now userAttempts
      in if maxAttempts rl \<le> int (length validAttempts) then
           (let retry = (case validAttempts of
                           [] \<Rightarrow> None
                         | oldestAttempt # _ \<Rightarrow>
                             Some (max 1 (ceil_div_1000 (oldestAttempt + windowMs rl - now))))
            in (Denied retry (length validAttempts) (maxAttempts rl), rl))
         else
           (let pushed = validAttempts @ [now]
            in (Allowed (length pushed) (maxAttempts rl)
                  (maxAttempts rl - int (length pushed)),
                rl\<lparr>attempts := (attempts rl)(key \<mapsto> pushed)\<rparr>)))"

definition resetUserAttempts :: "string \<Rightarrow> rate_limiter \<Rightarrow> rate_limiter" where
  "resetUserAttempts key rl = rl\<lparr>attempts := (attempts rl)(key := None)\<rparr>"

text \<open>
  \<open>cleanup\<close> visits every entry: a key whose list has no valid attempt left is deleted,
  a list that lost some attempts is replaced by its valid part, and a list that lost none
  is left as it is (it equals its valid part).
\<close>

definition cleanup :: "int \<Rightarrow> rate_limiter \<Rightarrow> rate_limiter" where
  "cleanup now rl =
     rl\<lparr>attempts := (\<lambda>key. case attempts rl key of
                           None \<Rightarrow> None
                         | Some l \<Rightarrow> (let validAttempts = validAt rl now l
                                     in if length validAttempts = 0 then None
                                        else Some validAttempts))\<rparr>"

definition destroy :: "rate_limiter \<Rightarrow> rate_limiter" where
  "destroy rl = rl\<lparr>attempts := Map.empty\<rparr>"

text \<open>
  The states a limiter constructed with \<open>(m, w)\<close> can be in: the methods of the class
  that write \<open>attempts\<close>, called in any order at any clock values.
\<close>

inductive reachable :: "int \<Rightarrow> int \<Rightarrow> rate_limiter \<Rightarrow> bool" for m w where
  r_new: "reachable m w (new_RateLimiter m w)"
| r_isAllowed: "reachable m w rl \<Longrightarrow> reachable m w (snd (isAllowed now key rl))"
| r_cleanup: "reachable m w rl \<Longrightarrow> reachable m w (cleanup now rl)"
| r_reset: "reachable m w rl \<Longrightarrow> reachable m w (resetUserAttempts key rl)"
| r_destroy: "reachable m w rl \<Longrightarrow> reachable m w (destroy rl)"

text \<open>Running \<open>isAllowed\<close> for one key at a list of clock values, collecting the results.\<close>

fun calls :: "string \<Rightarrow> int list \<Rightarrow> rate_limiter \<Rightarrow> rl_result list \<times> rate_limiter" where
  "calls key [] rl = ([], rl)"
| "calls key (now # ts) rl =
     (let (r, rl') = isAllowed now key rl;
          (rs, rl'') = calls key ts rl'
      in (r # rs, rl''))"

definition is_allowed :: "rl_result \<Rightarrow> bool" where
  "is_allowed r = (case r of Allowed _ _ _ \<Rightarrow> True | Denied _ _ _ \<Rightarrow> False)"

text \<open>
  Comparison of two \<open>retryAfter\<close> values, \<open>None\<close> standing for \<open>NaN\<close>: two numbers are
  compared as numbers, and \<open>NaN\<close> is only matched by \<open>NaN\<close>.
\<close>

definition retry_le :: "int option \<Rightarrow> int option \<Rightarrow> bool" where
  "retry_le a b =
     (case (a, b) of (Some x, Some y) \<Rightarrow> x \<le> y | (None, None) \<Rightarrow> True | _ \<Rightarrow> False)"

text \<open>The invariant of the reachable states: no stored list is longer than the limit.\<close>

definition rl_inv :: "int \<Rightarrow> int \<Rightarrow> rate_limiter \<Rightarrow> bool" where
  "rl_inv m w rl \<longleftrightarrow> maxAttempts rl = m \<and> windowMs rl = w \<and>
     (\<forall>k l. attempts rl k = Some l \<longrightarrow> int (length l) \<le> m)"

section \<open>PropertyFilter (features/PropertyFilter.js)\<close>

text \<open>
  A property of the embedded data payload, with the fields the filter reads. A field the
  payload may leave out is an option (a number: \<open>NaN\<close>, as the comparison sees it).
\<close>

record property =
  prop_id :: "string option"
  prop_slug :: "string option"
  prop_name :: "string option"
  prop_address :: "string option"
  prop_city :: "string option"
  prop_description :: "string option"
  prop_bedrooms :: jsnum
  prop_bathrooms :: jsnum
  prop_type :: "string option"
  prop_price_amount :: jsnum
  prop_tags :: "string list option"

text \<open>The object \<open>this.filters\<close>; \<open>None\<close> is \<open>null\<close>.\<close>

record filters =
  filters_bedrooms :: "jsnum option"
  filters_bathrooms :: "jsnum option"
  filters_tags :: "string list"
  filters_search :: string
  filters_minPrice :: "jsnum option"
  filters_maxPrice :: "jsnum option"
  filters_propertyType :: string

definition defaultFilters :: filters where
  "defaultFilters =
     \<lparr>filters_bedrooms = None, filters_bathrooms = None, filters_tags = [],
      filters_search = [], filters_minPrice = None, filters_maxPrice = None,
      filters_propertyType = []\<rparr>"

text \<open>
  A rendered card, reduced to what \<open>createPropertyCard\<close> takes from its two arguments: the
  property whose fields fill the markup, the \<open>data-property-id\<close> attribute
  (\<open>prop.id || prop.slug\<close>, as the string \<open>setAttribute\<close> stores) and the animation delay \<open>index * 50\<close> in milliseconds.
\<close>

record card =
  card_prop :: property
  data_property_id :: string
  animationDelay :: nat

datatype content = NoResults | Cards "card list"

text \<open>The two closures the input handlers hand to \<open>setTimeout\<close>.\<close>

datatype callback = SearchCommit | PriceCommit

text \<open>
  The filter object with the part of the page it reads and writes: the content of the
  mount container (\<open>None\<close>: there is no container), the count and label of the results
  line (\<open>None\<close>: the filter bar was not created), and the values of the three debounced
  inputs. \<open>debounceTimeout\<close> is the pending timer behind the handle of that name, with
  its due time and closure; \<open>None\<close> when the handle is \<open>null\<close> or its timer has fired or
  was cleared.
\<close>

record property_filter =
  allProperties :: "property list"
  filteredProperties :: "property list"
  container :: "content option"
  filters :: filters
  debounceTimeout :: "(int \<times> callback) option"
  debounceDelay :: int
  results :: "(nat \<times> string) option"
  searchInput_value :: string
  minPriceInput_value :: string
  maxPriceInput_value :: string

definition searchable :: "property \<Rightarrow> string" where
  "searchable prop =
     toLowerCase (or_empty (prop_name prop) @ '' '' @ or_empty (prop_address prop) @ '' '' @
                  or_empty (prop_city prop) @ '' '' @ or_empty (prop_description prop))"

text \<open>\<open>prop.tags || []\<close>\<close>

definition propTags :: "property \<Rightarrow> string list" where
  "propTags prop = (case prop_tags prop of None \<Rightarrow> [] | Some ts \<Rightarrow> ts)"

text \<open>The tag block of the filter callback: \<open>propTags\<close> must include every selected tag.\<close>

definition hasAllTags :: "filters \<Rightarrow> property \<Rightarrow> bool" where
  "hasAllTags f prop = list_all (\<lambda>tag. tag \<in> set (propTags prop)) (filters_tags f)"

definition tagTest :: "filters \<Rightarrow> property \<Rightarrow> bool" where
  "tagTest f prop = (if length (filters_tags f) > 0 then hasAllTags f prop else True)"

text \<open>The callback of \<open>allProperties.filter\<close> in \<open>applyFilters\<close>, test by test.\<close>

definition filterCallback :: "filters \<Rightarrow> property \<Rightarrow> bool" where
  "filterCallback f prop =
     (if filters_search f \<noteq> [] \<and> \<not> js_includes (searchable prop) (filters_search f) then False
      else if (case filters_bedrooms f of None \<Rightarrow> False
               | Some b \<Rightarrow> js_lt (prop_bedrooms prop) b) then False
      else if (case filters_bathrooms f of None \<Rightarrow> False
               | Some b \<Rightarrow> js_lt (prop_bathrooms prop) b) then False
      else if filters_propertyType f \<noteq> [] \<and> prop_type prop \<noteq> Some (filters_propertyType f)
        then False
      else if (case filters_minPrice f of None \<Rightarrow> False
               | Some p \<Rightarrow> js_lt (prop_price_amount prop) p) then False
      else if (case filters_maxPrice f of None \<Rightarrow> False
               | Some p \<Rightarrow> js_gt (prop_price_amount prop) p) then False
      else if \<not> tagTest f prop then False
      else True)"

definition createPropertyCard :: "property \<Rightarrow> nat \<Rightarrow> card" where
  "createPropertyCard prop index =
     \<lparr>card_prop = prop,
      data_property_id =
        (let slug = (case prop_slug prop of None \<Rightarrow> ''undefined'' | Some sl \<Rightarrow> sl)
         in case prop_id prop of
              None \<Rightarrow> slug
            | Some i \<Rightarrow> if i = [] then slug else i),
      animationDelay = index * 50\<rparr>"

definition render :: "property_filter \<Rightarrow> property_filter" where
  "render s =
     (case container s of
        None \<Rightarrow> s
      | Some _ \<Rightarrow>
          if length (filteredProperties s) = 0 then s\<lparr>container := Some NoResults\<rparr>
          else s\<lparr>container :=
                   Some (Cards (map (\<lambda>(index, prop). createPropertyCard prop index)
                                  (enumerate 0 (filteredProperties s))))\<rparr>)"

definition updateResultsCount :: "property_filter \<Rightarrow> property_filter" where
  "updateResultsCount s =
     (case results s of
        None \<Rightarrow> s
      | Some _ \<Rightarrow>
          s\<lparr>results := Some (length (filteredProperties s),
                              if length (filteredProperties s) = 1 then ''property found''
                              else ''properties found'')\<rparr>)"

definition applyFilters :: "property_filter \<Rightarrow> property_filter" where
  "applyFilters s =
     updateResultsCount (render
       (s\<lparr>filteredProperties := filter (filterCallback (filters s)) (allProperties s)\<rparr>))"

definition new_PropertyFilter :: "property list \<Rightarrow> content option \<Rightarrow> property_filter" where
  "new_PropertyFilter properties cont =
     \<lparr>allProperties = properties, filteredProperties = properties, container = cont,
      filters = defaultFilters, debounceTimeout = None, debounceDelay = 300,
      results = None, searchInput_value = [], minPriceInput_value = [],
      maxPriceInput_value = []\<rparr>"

subsection \<open>The debounced inputs\<close>

text \<open>
  An \<open>input\<close> event on one of the three debounced controls, carrying the value the
  control holds when its listener runs.
\<close>

datatype input_event = SearchInput string | MinPriceInput string | MaxPriceInput string

text \<open>
  The listeners of \<open>attachEventListeners\<close>, at clock value \<open>now\<close>: each one clears the
  timer behind \<open>this.debounceTimeout\<close> and stores a new one, due \<open>debounceDelay\<close> later.
\<close>

fun onInput :: "int \<Rightarrow> input_event \<Rightarrow> property_filter \<Rightarrow> property_filter" where
  "onInput now (SearchInput v) s =
     s\<lparr>searchInput_value := v,
       debounceTimeout := Some (now + debounceDelay s, SearchCommit)\<rparr>"
| "onInput now (MinPriceInput v) s =
     s\<lparr>minPriceInput_value := v,
       debounceTimeout := Some (now + debounceDelay s, PriceCommit)\<rparr>"
| "onInput now (MaxPriceInput v) s =
     s\<lparr>maxPriceInput_value := v,
       debounceTimeout := Some (now + debounceDelay s, PriceCommit)\<rparr>"

definition handlePriceChange :: "property_filter \<Rightarrow> property_filter" where
  "handlePriceChange s =
     applyFilters (s\<lparr>filters := (filters s)
       \<lparr>filters_minPrice :=
          (if minPriceInput_value s \<noteq> [] then Some (parseInt (minPriceInput_value s)) else None),
        filters_maxPrice :=
          (if maxPriceInput_value s \<noteq> [] then Some (parseInt (maxPriceInput_value s)) else None)\<rparr>\<rparr>)"

text \<open>The body of a timer closure; the values are read from the controls when it runs.\<close>

fun runCallback :: "callback \<Rightarrow> property_filter \<Rightarrow> property_filter" where
  "runCallback SearchCommit s =
     applyFilters (s\<lparr>filters := (filters s)
       \<lparr>filters_search := js_trim (toLowerCase (searchInput_value s))\<rparr>\<rparr>)"
| "runCallback PriceCommit s = handlePriceChange s"

text \<open>
  One call of \<open>applyFilters\<close> made by a timer: when it ran, which closure ran, and the
  filter criteria it applied.
\<close>

record commit =
  commit_time :: int
  commit_callback :: callback
  commit_filters :: filters

text \<open>
  The clock moves to \<open>now\<close>: a pending timer that is due runs, at its due time.
\<close>

definition advance :: "int \<Rightarrow> property_filter \<Rightarrow> commit list \<times> property_filter" where
  "advance now s =
     (case debounceTimeout s of
        None \<Rightarrow> ([], s)
      | Some (due, cb) \<Rightarrow>
          if due \<le> now then
            (let s' = runCallback cb (s\<lparr>debounceTimeout := None\<rparr>)
             in ([\<lparr>commit_time = due, commit_callback = cb, commit_filters = filters s'\<rparr>], s'))
          else ([], s))"

text \<open>
  A session: timed input events in the order they happen, then the clock runs on to
  \<open>final\<close>. The result is the list of timer commits and the state at the end.
\<close>

fun run :: "(int \<times> input_event) list \<Rightarrow> int \<Rightarrow> property_filter
              \<Rightarrow> commit list \<times> property_filter" where
  "run [] final s = advance final s"
| "run ((now, e) # es) final s =
     (let (c1, s1) = advance now s;
          (c2, s2) = run es final (onInput now e s1)
      in (c1 @ c2, s2))"

text \<open>
  A burst of search inputs after one at \<open>t0\<close>: each input comes no earlier than the one
  before it and less than the delay \<open>d\<close> after it.
\<close>

fun within_window :: "int \<Rightarrow> int \<Rightarrow> (int \<times> string) list \<Rightarrow> bool" where
  "within_window d t0 [] = True"
| "within_window d t0 ((t, v) # r) = (t0 \<le> t \<and> t < t0 + d \<and> within_window d t r)"

definition searchInputs :: "(int \<times> string) list \<Rightarrow> (int \<times> input_event) list" where
  "searchInputs b = map (\<lambda>(t, v). (t, SearchInput v)) b"

subsection \<open>A small listing used to run the filter\<close>

definition example_property :: "string \<Rightarrow> rat \<Rightarrow> string list \<Rightarrow> property" where
  "example_property n b ts =
     \<lparr>prop_id = Some n, prop_slug = None, prop_name = Some n, prop_address = None,
      prop_city = Some ''Tyler'', prop_description = None, prop_bedrooms = Num b,
      prop_bathrooms = Num 1, prop_type = Some ''Townhome'', prop_price_amount = Num 900,
      prop_tags = Some ts\<rparr>"

definition example_listing :: "property list" where
  "example_listing =
     [example_property ''Oak'' 3 [''Pet Friendly''],
      example_property ''Elm'' 1 [''Pet Friendly'', ''Section 8''],
      example_property ''Ash'' 4 []]"

definition example_filter :: property_filter where
  "example_filter =
     (new_PropertyFilter example_listing (Some (Cards [])))
       \<lparr>filters := defaultFilters\<lparr>filters_bedrooms := Some (Num 2)\<rparr>,
        results := Some (3, ''properties found'')\<rparr>"

definition example_page :: property_filter where
  "example_page =
     (new_PropertyFilter example_listing (Some (Cards [])))
       \<lparr>results := Some (3, ''properties found'')\<rparr>"

section \<open>Regular expressions of the validators\<close>

text \<open>
  The regular-expression literals of the validators use character classes,
  concatenation, alternation and repetition only, between the anchors \<open>^\<close> and \<open>$\<close>;
  groups capture, which \<open>test\<close> does not observe. Such a literal is a term of \<open>rx\<close>, and
  \<open>/^r$/.test(s)\<close> holds exactly when all of \<open>s\<close> is a word of \<open>r\<close>.
\<close>

datatype cls = Ch char | Rng char char | WhiteSp | Digit | WordCh

fun cls_has :: "cls \<Rightarrow> char \<Rightarrow> bool" where
  "cls_has (Ch a) c = (c = a)"
| "cls_has (Rng a b) c = ((of_char a :: nat) \<le> of_char c \<and> (of_char c :: nat) \<le> of_char b)"
| "cls_has WhiteSp c = is_space c"
| "cls_has Digit c = is_digit c"
| "cls_has WordCh c =
     (is_digit c \<or> c = CHR ''_'' \<or>
      ((97::nat) \<le> of_char c \<and> (of_char c :: nat) \<le> 122) \<or>
      ((65::nat) \<le> of_char c \<and> (of_char c :: nat) \<le> 90))"

text \<open>A bracket expression \<open>[...]\<close> (\<open>neg\<close> false) or \<open>[^...]\<close> (\<open>neg\<close> true).\<close>

definition in_class :: "bool \<Rightarrow> cls list \<Rightarrow> char \<Rightarrow> bool" where
  "in_class neg members c = (list_ex (\<lambda>i. cls_has i c) members \<noteq> neg)"

datatype rx =
  Fail
| Empty
| OneOf bool "cls list"
| Seq rx rx
| Alt rx rx
| Many rx

text \<open>The derived forms \<open>r?\<close>, \<open>r+\<close>, \<open>r{n}\<close>, \<open>r{0,n}\<close>, a sequence of parts and a literal
  string.\<close>

definition opt :: "rx \<Rightarrow> rx" where
  "opt r = Alt r Empty"

definition some :: "rx \<Rightarrow> rx" where
  "some r = Seq r (Many r)"

fun rep :: "nat \<Rightarrow> rx \<Rightarrow> rx" where
  "rep 0 r = Empty"
| "rep (Suc n) r = Seq r (rep n r)"

fun atmost :: "nat \<Rightarrow> rx \<Rightarrow> rx" where
  "atmost 0 r = Empty"
| "atmost (Suc n) r = opt (Seq r (atmost n r))"

fun seqs :: "rx list \<Rightarrow> rx" where
  "seqs [] = Empty"
| "seqs [r] = r"
| "seqs (r # rs) = Seq r (seqs rs)"

fun lit :: "string \<Rightarrow> rx" where
  "lit [] = Empty"
| "lit (c # cs) = Seq (OneOf False [Ch c]) (lit cs)"

text \<open>The words of an expression.\<close>

inductive_set star :: "string set \<Rightarrow> string set" for A where
  star_nil: "[] \<in> star A"
| star_app: "u \<in> A \<Longrightarrow> v \<in> star A \<Longrightarrow> u @ v \<in> star A"

fun lang :: "rx \<Rightarrow> string set" where
  "lang Fail = {}"
| "lang Empty = {[]}"
| "lang (OneOf neg members) = {[c] | c. in_class neg members c}"
| "lang (Seq r s) = {u @ v | u v. u \<in> lang r \<and> v \<in> lang s}"
| "lang (Alt r s) = lang r \<union> lang s"
| "lang (Many r) = star (lang r)"

text \<open>Matching by derivatives: the expression is rewritten code unit by code unit.\<close>

fun nullable :: "rx \<Rightarrow> bool" where
  "nullable Fail = False"
| "nullable Empty = True"
| "nullable (OneOf neg members) = False"
| "nullable (Seq r s) = (nullable r \<and> nullable s)"
| "nullable (Alt r s) = (nullable r \<or> nullable s)"
| "nullable (Many r) = True"

fun deriv :: "char \<Rightarrow> rx \<Rightarrow> rx" where
  "deriv c Fail = Fail"
| "deriv c Empty = Fail"
| "deriv c (OneOf neg members) = (if in_class neg members c then Empty else Fail)"
| "deriv c (Seq r s) =
     (if nullable r then Alt (Seq (deriv c r) s) (deriv c s) else Seq (deriv c r) s)"
| "deriv c (Alt r s) = Alt (deriv c r) (deriv c s)"
| "deriv c (Many r) = Seq (deriv c r) (Many r)"

definition rx_test :: "rx \<Rightarrow> string \<Rightarrow> bool" where
  "rx_test r s = nullable (foldl (\<lambda>r c. deriv c r) r s)"

section \<open>FormValidator (features/FormValidator.js)\<close>

subsection \<open>The built-in validators\<close>

text \<open>The literals of \<open>email\<close>, \<open>phone\<close>, \<open>zip\<close>, \<open>ssn\<close> and \<open>url\<close>, part by part.\<close>

definition email_rx :: rx where
  "email_rx =
     seqs [some (OneOf True [WhiteSp, Ch CHR ''@'']), lit ''@'',
           some (OneOf True [WhiteSp, Ch CHR ''@'']), lit ''.'',
           some (OneOf True [WhiteSp, Ch CHR ''@''])]"

definition phone_rx :: rx where
  "phone_rx =
     seqs [opt (lit ''(''), rep 3 (OneOf False [Rng CHR ''0'' CHR ''9'']), opt (lit '')''),
           opt (OneOf False [Ch CHR ''-'', Ch CHR ''.'', WhiteSp]),
           rep 3 (OneOf False [Rng CHR ''0'' CHR ''9'']),
           opt (OneOf False [Ch CHR ''-'', Ch CHR ''.'', WhiteSp]),
           rep 4 (OneOf False [Rng CHR ''0'' CHR ''9''])]"

definition zip_rx :: rx where
  "zip_rx =
     seqs [rep 5 (OneOf False [Digit]), opt (seqs [lit ''-'', rep 4 (OneOf False [Digit])])]"

definition ssn_rx :: rx where
  "ssn_rx =
     seqs [rep 3 (OneOf False [Digit]), opt (lit ''-''), rep 2 (OneOf False [Digit]),
           opt (lit ''-''), rep 4 (OneOf False [Digit])]"

definition url_rx :: rx where
  "url_rx =
     seqs [opt (seqs [lit ''http'', opt (lit ''s''), lit ''://'']),
           some (OneOf False [Digit, Rng CHR ''a'' CHR ''z'', Ch CHR ''.'', Ch CHR ''-'']),
           lit ''.'',
           rep 2 (OneOf False [Rng CHR ''a'' CHR ''z'', Ch CHR ''.'']),
           atmost 4 (OneOf False [Rng CHR ''a'' CHR ''z'', Ch CHR ''.'']),
           Many (Many (OneOf False [Ch CHR ''/'', WordCh, Ch CHR '' '', Ch CHR ''.'',
                                    Ch CHR ''-''])),
           opt (lit ''/'')]"

text \<open>The object a validator returns.\<close>

record vresult =
  valid :: bool
  message :: string

datatype js_error = SyntaxError | TypeError

text \<open>
  The outcome of \<open>this.form.querySelector(`[name='n']`)\<close> for a field name \<open>n\<close>: the name
  does not leave a selector that parses (a quote in it, for one) and \<open>querySelector\<close>
  throws a \<open>SyntaxError\<close>; no element matches; or the first matching element, with its
  \<open>value\<close> (\<open>None\<close>: the element has no such property).
\<close>

datatype query_result = BadSelector | NoElement | Element "string option"

text \<open>
  What the validators take from the platform and the page: \<open>querySelector\<close> by field name
  (for \<open>match\<close>), \<open>new RegExp(p).test(v)\<close> for a pattern given as a string (\<open>None\<close>: the
  constructor throws a \<open>SyntaxError\<close>), \<open>!isNaN(parseFloat(v)) && isFinite(v)\<close> and
  \<open>!isNaN(Date.parse(v))\<close>.
\<close>

record page =
  form_query :: "string \<Rightarrow> query_result"
  regexp_test :: "string \<Rightarrow> string \<Rightarrow> bool option"
  number_valid :: "string \<Rightarrow> bool"
  date_valid :: "string \<Rightarrow> bool"

type_synonym validator_fn = "page \<Rightarrow> string \<Rightarrow> string option \<Rightarrow> js_error + vresult"

text \<open>A parameter inside a template literal: \<open>undefined\<close> prints its name.\<close>

definition param_str :: "string option \<Rightarrow> string" where
  "param_str p = (case p of None \<Rightarrow> ''undefined'' | Some s \<Rightarrow> s)"

fun js_ge :: "jsnum \<Rightarrow> jsnum \<Rightarrow> bool" where
  "js_ge (Num a) (Num b) = (a \<ge> b)"
| "js_ge _ _ = False"

fun js_le :: "jsnum \<Rightarrow> jsnum \<Rightarrow> bool" where
  "js_le (Num a) (Num b) = (a \<le> b)"
| "js_le _ _ = False"

definition validator_required :: validator_fn where
  "validator_required pg value param =
     Inr \<lparr>valid = (length (js_trim value) > 0), message = ''This field is required''\<rparr>"

definition validator_email :: validator_fn where
  "validator_email pg value param =
     Inr \<lparr>valid = rx_test email_rx value, message = ''Please enter a valid email address''\<rparr>"

definition validator_phone :: validator_fn where
  "validator_phone pg value param =
     Inr \<lparr>valid = rx_test phone_rx value,
          message = ''Please enter a valid phone number (e.g., 903-555-1234)''\<rparr>"

definition validator_zip :: validator_fn where
  "validator_zip pg value param =
     Inr \<lparr>valid = rx_test zip_rx value,
          message = ''Please enter a valid ZIP code (e.g., 75701 or 75701-1234)''\<rparr>"

definition validator_minLength :: validator_fn where
  "validator_minLength pg value param =
     Inr \<lparr>valid = js_ge (Num (rat_of_nat (length value))) (parseInt (param_str param)),
          message = ''Must be at least '' @ param_str param @ '' characters''\<rparr>"

definition validator_maxLength :: validator_fn where
  "validator_maxLength pg value param =
     Inr \<lparr>valid = js_le (Num (rat_of_nat (length value))) (parseInt (param_str param)),
          message = ''Must be no more than '' @ param_str param @ '' characters''\<rparr>"

text \<open>\<open>new RegExp(undefined)\<close> is the empty pattern, which every string matches.\<close>

definition validator_pattern :: validator_fn where
  "validator_pattern pg value param =
     (case param of
        None \<Rightarrow> Inr \<lparr>valid = True, message = ''Please match the requested format''\<rparr>
      | Some p \<Rightarrow>
          (case regexp_test pg p value of
             None \<Rightarrow> Inl SyntaxError
           | Some b \<Rightarrow> Inr \<lparr>valid = b, message = ''Please match the requested format''\<rparr>))"

definition validator_match :: validator_fn where
  "validator_match pg value param =
     (case form_query pg (param_str param) of
        BadSelector \<Rightarrow> Inl SyntaxError
      | NoElement \<Rightarrow> Inr \<lparr>valid = False, message = ''Must match '' @ param_str param\<rparr>
      | Element other \<Rightarrow>
          Inr \<lparr>valid = (other = Some value), message = ''Must match '' @ param_str param\<rparr>)"

definition validator_number :: validator_fn where
  "validator_number pg value param =
     Inr \<lparr>valid = number_valid pg value, message = ''Please enter a valid number''\<rparr>"

definition validator_url :: validator_fn where
  "validator_url pg value param =
     Inr \<lparr>valid = rx_test url_rx value, message = ''Please enter a valid URL''\<rparr>"

definition validator_date :: validator_fn where
  "validator_date pg value param =
     Inr \<lparr>valid = date_valid pg value, message = ''Please enter a valid date''\<rparr>"

definition validator_ssn :: validator_fn where
  "validator_ssn pg value param =
     Inr \<lparr>valid = rx_test ssn_rx value, message = ''Please enter a valid SSN (XXX-XX-XXXX)''\<rparr>"

definition builtin_validators :: "string \<rightharpoonup> validator_fn" where
  "builtin_validators =
     map_of [(''required'', validator_required), (''email'', validator_email),
             (''phone'', validator_phone), (''zip'', validator_zip),
             (''minLength'', validator_minLength), (''maxLength'', validator_maxLength),
             (''pattern'', validator_pattern), (''match'', validator_match),
             (''number'', validator_number), (''url'', validator_url),
             (''date'', validator_date), (''ssn'', validator_ssn)]"

subsection \<open>Fields and the validator object\<close>

text \<open>
  A form field with what \<open>validateField\<close> and \<open>updateFieldUI\<close> read and write: its value
  and attributes (\<open>minLength\<close> and \<open>maxLength\<close> are \<open>-1\<close> when the attribute is absent,
  \<open>pattern\<close> and \<open>title\<close> are empty then), the class lists of the field and of its group,
  the \<open>aria-invalid\<close> attribute and the error container (\<open>None\<close>: there is none) with the
  value last assigned to its \<open>textContent\<close> and its \<open>display\<close> style.

  An element of the \<open>errors\<close> array is a message string, or \<open>undefined\<close>, or (in one
  corner) a function of the validator table, given by its name.
\<close>

datatype entry = Str string | Undefined | Function string

record field =
  field_value :: string
  field_id :: string
  has_required :: bool
  dataset_validate :: "string option"
  field_minLength :: int
  field_maxLength :: int
  field_pattern :: string
  field_title :: string
  field_classList :: "string set"
  group_classList :: "string set"
  aria_invalid :: "string option"
  errorContainer :: "(entry \<times> string) option"

record field_state =
  touched :: bool
  state_valid :: bool
  state_errors :: "entry list"

datatype callback_event = FieldValid string | FieldInvalid string "entry list"

text \<open>
  The validator object: the own entries of the table \<open>this.validators\<close> (the built-in
  ones, and custom validators), the \<open>fieldStates\<close> map, the options \<open>validateField\<close> reads
  (for the two callbacks: whether the option is a function) and the calls made to the
  callbacks so far. The table is an object literal, so a name that is not one of its own
  entries is looked up in \<open>Object.prototype\<close> next.
\<close>

record form_validator =
  validators :: "string \<rightharpoonup> validator_fn"
  fieldStates :: "string \<rightharpoonup> field_state"
  showSuccessState :: bool
  onFieldValid :: bool
  onFieldInvalid :: bool
  callbackLog :: "callback_event list"

definition new_FormValidator :: form_validator where
  "new_FormValidator =
     \<lparr>validators = builtin_validators, fieldStates = Map.empty, showSuccessState = True,
      onFieldValid = False, onFieldInvalid = False, callbackLog = []\<rparr>"

text \<open>The property names of \<open>Object.prototype\<close>.\<close>

definition object_prototype_names :: "string list" where
  "object_prototype_names =
     [''constructor'', ''__defineGetter__'', ''__defineSetter__'', ''hasOwnProperty'',
      ''__lookupGetter__'', ''__lookupSetter__'', ''isPrototypeOf'', ''propertyIsEnumerable'',
      ''toString'', ''valueOf'', ''__proto__'', ''toLocaleString'']"

text \<open>
  \<open>this.validators[name](value, param)\<close> for a name found in \<open>Object.prototype\<close>, followed
  by the test \<open>!result.valid\<close> and the push of \<open>result.message\<close>: an exception, nothing
  pushed (\<open>None\<close>), or the element pushed.
  \<^item> \<open>__proto__\<close> is an object and not callable; \<open>__defineGetter__\<close> and
    \<open>__defineSetter__\<close> reject \<open>param\<close>, which is no function: a \<open>TypeError\<close>.
  \<^item> \<open>__lookupGetter__\<close> and \<open>__lookupSetter__\<close> return a function for the accessor
    \<open>__proto__\<close> of \<open>Object.prototype\<close> (unless the table has an own entry of that name) and
    \<open>undefined\<close> for every other value, whose \<open>valid\<close> cannot be read: a \<open>TypeError\<close>.
  \<^item> \<open>valueOf\<close> returns the table itself, whose \<open>valid\<close> and \<open>message\<close> are its own
    entries of these names, if it has them.
  \<^item> \<open>toString\<close> and \<open>toLocaleString\<close> return a string, \<open>hasOwnProperty\<close>,
    \<open>isPrototypeOf\<close> and \<open>propertyIsEnumerable\<close> a boolean, \<open>constructor\<close> a wrapper
    object: none has a \<open>valid\<close> or a \<open>message\<close>, and \<open>undefined\<close> is pushed.
    (\<open>toLocaleString\<close> calls \<open>this.toString()\<close>; an own entry of that name, a validator
    called without a value, is taken to throw a \<open>TypeError\<close> as the built-in ones do.)
\<close>

definition callInherited :: "form_validator \<Rightarrow> string \<Rightarrow> string \<Rightarrow> js_error + entry option" where
  "callInherited fv name value =
     (if name = ''__proto__'' \<or> name = ''__defineGetter__'' \<or> name = ''__defineSetter__''
      then Inl TypeError
      else if name = ''__lookupGetter__'' \<or> name = ''__lookupSetter__'' then
        (if value = ''__proto__'' \<and> validators fv ''__proto__'' = None
         then Inr (Some Undefined) else Inl TypeError)
      else if name = ''valueOf'' then
        (if validators fv ''valid'' \<noteq> None then Inr None
         else Inr (Some (if validators fv ''message'' \<noteq> None then Function ''message''
                         else Undefined)))
      else if name = ''toLocaleString'' \<and> validators fv ''toString'' \<noteq> None
        then Inl TypeError
      else Inr (Some Undefined))"

text \<open>\<open>s.split(sep)\<close> for a separator of one code unit: the pieces between separators.\<close>

fun js_split :: "char \<Rightarrow> string \<Rightarrow> string list" where
  "js_split sep [] = [[]]"
| "js_split sep (c # cs) =
     (if c = sep then [] # js_split sep cs
      else (case js_split sep cs of
              [] \<Rightarrow> [[c]]
            | piece # pieces \<Rightarrow> (c # piece) # pieces))"

text \<open>\<open>(field.dataset.validate || '').split(' ').filter(Boolean)\<close>\<close>

definition validateTypes :: "field \<Rightarrow> string list" where
  "validateTypes fld =
     filter (\<lambda>t. t \<noteq> []) (js_split CHR '' '' (or_empty (dataset_validate fld)))"

text \<open>\<open>const [validatorName, param] = type.split(':')\<close>\<close>

definition split_type :: "string \<Rightarrow> string \<times> string option" where
  "split_type type' =
     (case js_split CHR '':'' type' of
        [] \<Rightarrow> ([], None)
      | [validatorName] \<Rightarrow> (validatorName, None)
      | validatorName # param # _ \<Rightarrow> (validatorName, Some param))"

definition requiredApplies :: "field \<Rightarrow> bool" where
  "requiredApplies fld \<longleftrightarrow>
     has_required fld \<or>
     (case dataset_validate fld of None \<Rightarrow> False | Some v \<Rightarrow> js_includes v ''required'')"

text \<open>Decimal digits of a length attribute inside a template literal.\<close>

fun show_nat :: "nat \<Rightarrow> string" where
  "show_nat n =
     (if n < 10 then [char_of (48 + n)]
      else show_nat (n div 10) @ [char_of (48 + n mod 10)])"

text \<open>The required check at the head of \<open>validateField\<close>.\<close>

definition checkRequired :: "form_validator \<Rightarrow> page \<Rightarrow> field \<Rightarrow> js_error + entry list" where
  "checkRequired fv pg fld =
     (if requiredApplies fld then
        (case validators fv ''required'' of
           None \<Rightarrow> Inl TypeError
         | Some v \<Rightarrow>
             (case v pg (field_value fld) None of
                Inl e \<Rightarrow> Inl e
              | Inr result \<Rightarrow> Inr (if \<not> valid result then [Str (message result)] else [])))
      else Inr [])"

text \<open>
  The \<open>forEach\<close> over the validation types: \<open>errors\<close> is the array being filled, and a
  call that throws ends the loop and \<open>validateField\<close>. \<open>this.validators[validatorName]\<close>
  is an own entry of the table or, failing that, a member of \<open>Object.prototype\<close>; any
  other name gives \<open>undefined\<close> and is skipped.
\<close>

fun forEachType :: "form_validator \<Rightarrow> page \<Rightarrow> string \<Rightarrow> string list \<Rightarrow> entry list
                      \<Rightarrow> js_error + entry list" where
  "forEachType fv pg value [] errors = Inr errors"
| "forEachType fv pg value (type' # types) errors =
     (let (validatorName, param) = split_type type'
      in case validators fv validatorName of
           Some v \<Rightarrow>
             if validatorName \<noteq> ''required'' then
               (case v pg value param of
                  Inl e \<Rightarrow> Inl e
                | Inr result \<Rightarrow>
                    forEachType fv pg value types
                      (if \<not> valid result then errors @ [Str (message result)] else errors))
             else forEachType fv pg value types errors
         | None \<Rightarrow>
             if validatorName \<in> set object_prototype_names then
               (case callInherited fv validatorName value of
                  Inl e \<Rightarrow> Inl e
                | Inr None \<Rightarrow> forEachType fv pg value types errors
                | Inr (Some pushed) \<Rightarrow> forEachType fv pg value types (errors @ [pushed]))
             else forEachType fv pg value types errors)"

text \<open>The three checks of the HTML attributes, pushing onto \<open>errors\<close>.\<close>

definition checkHtml5 :: "page \<Rightarrow> field \<Rightarrow> entry list \<Rightarrow> js_error + entry list" where
  "checkHtml5 pg fld errors =
     (let value = field_value fld;
          errors1 = (if field_minLength fld > 0 \<and> int (length value) < field_minLength fld
                     then errors @ [Str (''Must be at least ''
                                         @ show_nat (nat (field_minLength fld))
                                         @ '' characters'')]
                     else errors);
          errors2 = (if field_maxLength fld > 0 \<and> int (length value) > field_maxLength fld
                     then errors1 @ [Str (''Must be no more than ''
                                          @ show_nat (nat (field_maxLength fld))
                                          @ '' characters'')]
                     else errors1)
      in if field_pattern fld \<noteq> [] then
           (case regexp_test pg (field_pattern fld) value of
              None \<Rightarrow> Inl SyntaxError
            | Some b \<Rightarrow>
                Inr (if \<not> b then errors2 @ [Str (if field_title fld \<noteq> [] then field_title fld
                                                 else ''Please match the requested format'')]
                     else errors2))
         else Inr errors2)"

text \<open>The part of \<open>validateField\<close> that fills \<open>errors\<close>.\<close>

definition collectErrors :: "form_validator \<Rightarrow> page \<Rightarrow> field \<Rightarrow> js_error + entry list" where
  "collectErrors fv pg fld =
     (case checkRequired fv pg fld of
        Inl e \<Rightarrow> Inl e
      | Inr errors \<Rightarrow>
          if length (js_trim (field_value fld)) > 0 then
            (case forEachType fv pg (field_value fld) (validateTypes fld) errors of
               Inl e \<Rightarrow> Inl e
             | Inr errors' \<Rightarrow> checkHtml5 pg fld errors')
          else Inr errors)"

text \<open>\<open>state.errors[0] || ''\<close>: the first element unless it is missing or falsy.\<close>

definition first_or_empty :: "entry list \<Rightarrow> entry" where
  "first_or_empty errors =
     (case errors of
        [] \<Rightarrow> Str []
      | Undefined # _ \<Rightarrow> Str []
      | e # _ \<Rightarrow> e)"

text \<open>
  \<open>updateFieldUI\<close>, up to the timer that takes the \<open>shake\<close> class away again 300 ms
  later.
\<close>

definition updateFieldUI :: "form_validator \<Rightarrow> field \<Rightarrow> field_state \<Rightarrow> field" where
  "updateFieldUI fv fld state =
     (let cleared = fld
            \<lparr>group_classList := group_classList fld - {''form-group--error'', ''form-group--success''},
             field_classList := field_classList fld
                                  - {''form-control--error'', ''form-control--success''},
             aria_invalid := None\<rparr>
      in if \<not> state_valid state then
           cleared
             \<lparr>group_classList := insert ''form-group--error'' (group_classList cleared),
              field_classList := insert ''shake''
                                   (insert ''form-control--error'' (field_classList cleared)),
              aria_invalid := Some ''true'',
              errorContainer :=
                (case errorContainer cleared of
                   None \<Rightarrow> None
                 | Some _ \<Rightarrow> Some (first_or_empty (state_errors state), ''block''))\<rparr>
         else if touched state \<and> showSuccessState fv then
           cleared
             \<lparr>group_classList := insert ''form-group--success'' (group_classList cleared),
              field_classList := insert ''form-control--success'' (field_classList cleared),
              aria_invalid := Some ''false'',
              errorContainer :=
                (case errorContainer cleared of
                   None \<Rightarrow> None
                 | Some _ \<Rightarrow> Some (Str [], ''none''))\<rparr>
         else cleared)"

text \<open>
  \<open>validateField\<close>: the outcome (the boolean returned, or the exception thrown), the
  validator object and the field afterwards. The state object of the field is marked
  touched in place before anything can throw; a state object created by the call is
  stored only at the end.
\<close>

definition validateField ::
  "form_validator \<Rightarrow> page \<Rightarrow> field \<Rightarrow> (js_error + bool) \<times> form_validator \<times> field" where
  "validateField fv pg fld =
     (let fieldId = field_id fld;
          fv1 = (case fieldStates fv fieldId of
                   None \<Rightarrow> fv
                 | Some st \<Rightarrow> fv\<lparr>fieldStates := (fieldStates fv)(fieldId \<mapsto> st\<lparr>touched := True\<rparr>)\<rparr>)
      in case collectErrors fv pg fld of
           Inl e \<Rightarrow> (Inl e, fv1, fld)
         | Inr errors \<Rightarrow>
             (let state = \<lparr>touched = True, state_valid = (length errors = 0),
                           state_errors = errors\<rparr>;
                  fv2 = fv\<lparr>fieldStates := (fieldStates fv)(fieldId \<mapsto> state)\<rparr>;
                  fld' = updateFieldUI fv2 fld state;
                  fv3 = (if state_valid state \<and> onFieldValid fv2
                         then fv2\<lparr>callbackLog := callbackLog fv2 @ [FieldValid fieldId]\<rparr>
                         else if \<not> state_valid state \<and> onFieldInvalid fv2
                         then fv2\<lparr>callbackLog := callbackLog fv2 @ [FieldInvalid fieldId errors]\<rparr>
                         else fv2)
              in (Inr (state_valid state), fv3, fld')))"

subsection \<open>validateField as the specification words it\<close>

text \<open>
  The specification lists the checks of a field in three groups: (a) the required check
  if it applies, (b) every validator named in the declared list, in the declared order,
  (c) the constraints of the HTML attributes \<open>minlength\<close>, \<open>maxlength\<close> and \<open>pattern\<close>;
  (b) and (c) only for a value that is not empty once trimmed. A check is the result
  object of one validator call, or the exception the call throws.
\<close>

definition spec_required_check :: "form_validator \<Rightarrow> page \<Rightarrow> field \<Rightarrow> (js_error + vresult) list" where
  "spec_required_check fv pg fld =
     (if requiredApplies fld then
        [case validators fv ''required'' of
           None \<Rightarrow> Inl TypeError
         | Some v \<Rightarrow> v pg (field_value fld) None]
      else [])"

definition spec_named_check :: "form_validator \<Rightarrow> page \<Rightarrow> string \<Rightarrow> string
                                  \<Rightarrow> (js_error + vresult) list" where
  "spec_named_check fv pg value type' =
     (case validators fv (fst (split_type type')) of
        None \<Rightarrow> []
      | Some v \<Rightarrow>
          if fst (split_type type') = ''required'' then []
          else [v pg value (snd (split_type type'))])"

definition spec_html_checks :: "page \<Rightarrow> field \<Rightarrow> (js_error + vresult) list" where
  "spec_html_checks pg fld =
     [Inr \<lparr>valid = \<not> (field_minLength fld > 0 \<and>
                       int (length (field_value fld)) < field_minLength fld),
           message = ''Must be at least '' @ show_nat (nat (field_minLength fld))
                     @ '' characters''\<rparr>,
      Inr \<lparr>valid = \<not> (field_maxLength fld > 0 \<and>
                       int (length (field_value fld)) > field_maxLength fld),
           message = ''Must be no more than '' @ show_nat (nat (field_maxLength fld))
                     @ '' characters''\<rparr>] @
     (if field_pattern fld = [] then []
      else [case regexp_test pg (field_pattern fld) (field_value fld) of
              None \<Rightarrow> Inl SyntaxError
            | Some b \<Rightarrow>
                Inr \<lparr>valid = b,
                     message = (if field_title fld \<noteq> [] then field_title fld
                                else ''Please match the requested format'')\<rparr>])"

definition spec_checks :: "form_validator \<Rightarrow> page \<Rightarrow> field \<Rightarrow> (js_error + vresult) list" where
  "spec_checks fv pg fld =
     spec_required_check fv pg fld @
     (if js_trim (field_value fld) \<noteq> [] then
        concat (map (spec_named_check fv pg (field_value fld)) (validateTypes fld)) @
        spec_html_checks pg fld
      else [])"

text \<open>
  The validators named in the list are the entries of the validator table. A field whose
  list names no member of \<open>Object.prototype\<close> instead:
\<close>

definition names_validators_only :: "form_validator \<Rightarrow> field \<Rightarrow> bool" where
  "names_validators_only fv fld \<longleftrightarrow>
     list_all (\<lambda>t. validators fv (fst (split_type t)) \<noteq> None \<or>
                    fst (split_type t) \<notin> set object_prototype_names)
       (validateTypes fld)"

text \<open>
  All failing messages of a list of checks, in the order of the checks; the first
  exception, if there is one, takes their place.
\<close>

fun failing_messages :: "(js_error + vresult) list \<Rightarrow> js_error + string list" where
  "failing_messages [] = Inr []"
| "failing_messages (Inl e # rest) = Inl e"
| "failing_messages (Inr r # rest) =
     (case failing_messages rest of
        Inl e \<Rightarrow> Inl e
      | Inr ms \<Rightarrow> Inr (if valid r then ms else message r # ms))"

text \<open>The messages as elements of the \<open>errors\<close> array.\<close>

definition as_entries :: "js_error + string list \<Rightarrow> js_error + entry list" where
  "as_entries r = (case r of Inl e \<Rightarrow> Inl e | Inr ms \<Rightarrow> Inr (map Str ms))"

subsection \<open>Two fields used to run the validator\<close>

definition example_page_env :: page where
  "example_page_env =
     \<lparr>form_query = (\<lambda>n. NoElement), regexp_test = (\<lambda>p v. None),
      number_valid = (\<lambda>v. False), date_valid = (\<lambda>v. False)\<rparr>"

definition example_field :: "string \<Rightarrow> bool \<Rightarrow> string \<Rightarrow> field" where
  "example_field v req types =
     \<lparr>field_value = v, field_id = ''contact'', has_required = req,
      dataset_validate = Some types, field_minLength = 8, field_maxLength = - 1,
      field_pattern = [], field_title = [], field_classList = {}, group_classList = {},
      aria_invalid = None, errorContainer = Some (Str [], ''none'')\<rparr>"

subsection \<open>The four patterns as the specification reads them\<close>

text \<open>
  \<open>[^\s@]+\<close>: a non-empty run of code units that are neither white space nor \<open>@\<close>;
  \<open>\d{n}\<close> and \<open>[0-9]{n}\<close>: exactly \<open>n\<close> decimal digits; \<open>[-.\s]?\<close>: nothing, or one
  hyphen, dot or white-space code unit.
\<close>

definition spec_email_part :: "string \<Rightarrow> bool" where
  "spec_email_part w \<longleftrightarrow> w \<noteq> [] \<and> (\<forall>c\<in>set w. \<not> is_space c \<and> c \<noteq> CHR ''@'')"

definition spec_digits :: "nat \<Rightarrow> string \<Rightarrow> bool" where
  "spec_digits n w \<longleftrightarrow> length w = n \<and> (\<forall>c\<in>set w. is_digit c)"

definition spec_separator :: "string \<Rightarrow> bool" where
  "spec_separator w \<longleftrightarrow>
     w = [] \<or> (\<exists>c. w = [c] \<and> (c = CHR ''-'' \<or> c = CHR ''.'' \<or> is_space c))"

text \<open>\<open>^[^\s@]+@[^\s@]+\.[^\s@]+$\<close>\<close>

definition spec_email :: "string \<Rightarrow> bool" where
  "spec_email v \<longleftrightarrow>
     (\<exists>a b c. v = a @ ''@'' @ b @ ''.'' @ c \<and>
              spec_email_part a \<and> spec_email_part b \<and> spec_email_part c)"

text \<open>\<open>^\d{5}(-\d{4})?$\<close>\<close>

definition spec_zip :: "string \<Rightarrow> bool" where
  "spec_zip v \<longleftrightarrow>
     spec_digits 5 v \<or> (\<exists>d e. v = d @ ''-'' @ e \<and> spec_digits 5 d \<and> spec_digits 4 e)"

text \<open>\<open>^\(?([0-9]{3})\)?[-.\s]?([0-9]{3})[-.\s]?([0-9]{4})$\<close>\<close>

definition spec_phone :: "string \<Rightarrow> bool" where
  "spec_phone v \<longleftrightarrow>
     (\<exists>p a q s b t c. v = p @ a @ q @ s @ b @ t @ c \<and>
        (p = [] \<or> p = ''('') \<and> spec_digits 3 a \<and> (q = [] \<or> q = '')'') \<and>
        spec_separator s \<and> spec_digits 3 b \<and> spec_separator t \<and> spec_digits 4 c)"

section \<open>Accordion (components/Accordion.js)\<close>

text \<open>
  One entry of \<open>this.items\<close>: the logical flag \<open>isOpen\<close> and the attributes \<open>open\<close> and
  \<open>close\<close> write at once (\<open>aria-expanded\<close> and the active class of the button, \<open>hidden\<close>
  and the active class of the panel).
\<close>

record accordion_item =
  isOpen :: bool
  aria_expanded :: bool
  button_active :: bool
  panel_hidden :: bool
  panel_active :: bool

text \<open>
  The timers \<open>animateOpen\<close> and \<open>animateClose\<close> set. They change styles and the \<open>hidden\<close>
  attribute after the animation, never \<open>isOpen\<close>; the model records that they were set.
\<close>

datatype animation = AfterOpen | AfterClose

text \<open>
  The accordion: its items, the option \<open>allowMultiple\<close>, whether the option \<open>onToggle\<close> is
  a function, and the calls made to it so far, oldest first.
\<close>

record accordion =
  items :: "accordion_item list"
  allowMultiple :: bool
  onToggle :: bool
  toggleCalls :: "(int \<times> bool) list"
  animationTimers :: "(int \<times> animation) list"

definition update_item :: "int \<Rightarrow> (accordion_item \<Rightarrow> accordion_item) \<Rightarrow> accordion \<Rightarrow> accordion" where
  "update_item index f acc = acc\<lparr>items := (items acc)[nat index := f (items acc ! nat index)]\<rparr>"

definition animateOpen :: "int \<Rightarrow> accordion \<Rightarrow> accordion" where
  "animateOpen index acc =
     (update_item index (\<lambda>it. it\<lparr>panel_active := True\<rparr>) acc)
       \<lparr>animationTimers := animationTimers acc @ [(index, AfterOpen)]\<rparr>"

definition animateClose :: "int \<Rightarrow> accordion \<Rightarrow> accordion" where
  "animateClose index acc =
     (update_item index (\<lambda>it. it\<lparr>panel_active := False\<rparr>) acc)
       \<lparr>animationTimers := animationTimers acc @ [(index, AfterClose)]\<rparr>"

definition close_acc :: "int \<Rightarrow> bool \<Rightarrow> accordion \<Rightarrow> accordion" where
  "close_acc index animate acc =
     (if index < 0 \<or> index \<ge> int (length (items acc)) then acc
      else if \<not> isOpen (items acc ! nat index) then acc
      else
        (let acc1 = update_item index
                      (\<lambda>it. it\<lparr>isOpen := False, aria_expanded := False,
                                button_active := False\<rparr>) acc;
             acc2 = (if animate then animateClose index acc1
                     else update_item index
                            (\<lambda>it. it\<lparr>panel_hidden := True, panel_active := False\<rparr>) acc1)
         in if onToggle acc2 then acc2\<lparr>toggleCalls := toggleCalls acc2 @ [(index, False)]\<rparr>
            else acc2))"

text \<open>
  The loop of \<open>open\<close> that closes the other panels: every item but \<open>index\<close> that is open
  when its turn comes is closed, in the order of the items.
\<close>

definition others_step :: "int \<Rightarrow> bool \<Rightarrow> accordion \<Rightarrow> nat \<Rightarrow> accordion" where
  "others_step index animate a i =
     (if int i \<noteq> index \<and> isOpen (items a ! i) then close_acc (int i) animate a else a)"

definition closeOthers :: "int \<Rightarrow> bool \<Rightarrow> accordion \<Rightarrow> accordion" where
  "closeOthers index animate acc =
     foldl (others_step index animate) acc [0..<length (items acc)]"

definition open_acc :: "int \<Rightarrow> bool \<Rightarrow> accordion \<Rightarrow> accordion" where
  "open_acc index animate acc =
     (if index < 0 \<or> index \<ge> int (length (items acc)) then acc
      else if isOpen (items acc ! nat index) then acc
      else
        (let acc1 = (if \<not> allowMultiple acc then closeOthers index animate acc else acc);
             acc2 = update_item index
                      (\<lambda>it. it\<lparr>isOpen := True, aria_expanded := True, button_active := True,
                                panel_hidden := False\<rparr>) acc1;
             acc3 = (if animate then animateOpen index acc2
                     else update_item index (\<lambda>it. it\<lparr>panel_active := True\<rparr>) acc2)
         in if onToggle acc3 then acc3\<lparr>toggleCalls := toggleCalls acc3 @ [(index, True)]\<rparr>
            else acc3))"

definition toggle_acc :: "int \<Rightarrow> accordion \<Rightarrow> accordion" where
  "toggle_acc index acc =
     (if index < 0 \<or> index \<ge> int (length (items acc)) then acc
      else if isOpen (items acc ! nat index) then close_acc index True acc
      else open_acc index True acc)"

definition openAll :: "accordion \<Rightarrow> accordion" where
  "openAll acc = foldl (\<lambda>a i. open_acc (int i) True a) acc [0..<length (items acc)]"

definition closeAll :: "accordion \<Rightarrow> accordion" where
  "closeAll acc = foldl (\<lambda>a i. close_acc (int i) True a) acc [0..<length (items acc)]"

definition destroy_acc :: "accordion \<Rightarrow> accordion" where
  "destroy_acc acc = acc\<lparr>items := []\<rparr>"

text \<open>
  \<open>init\<close> for a container with \<open>n\<close> complete items: every item starts closed, then the
  indices of \<open>defaultOpen\<close> that are in range are opened without animation.
\<close>

definition closed_item :: accordion_item where
  "closed_item =
     \<lparr>isOpen = False, aria_expanded = False, button_active = False, panel_hidden = True,
      panel_active = False\<rparr>"

definition init_acc :: "nat \<Rightarrow> bool \<Rightarrow> bool \<Rightarrow> int list \<Rightarrow> accordion" where
  "init_acc n multiple callback defaultOpen =
     foldl (\<lambda>a index. if index \<ge> 0 \<and> index < int (length (items a))
                        then open_acc index False a else a)
       \<lparr>items = replicate n closed_item, allowMultiple = multiple, onToggle = callback,
        toggleCalls = [], animationTimers = []\<rparr>
       defaultOpen"

text \<open>The states of an accordion: after \<open>init\<close>, and after any call of a method.\<close>

inductive acc_reachable :: "accordion \<Rightarrow> bool" where
  a_init: "acc_reachable (init_acc n multiple callback defaultOpen)"
| a_toggle: "acc_reachable acc \<Longrightarrow> acc_reachable (toggle_acc index acc)"
| a_open: "acc_reachable acc \<Longrightarrow> acc_reachable (open_acc index animate acc)"
| a_close: "acc_reachable acc \<Longrightarrow> acc_reachable (close_acc index animate acc)"
| a_openAll: "acc_reachable acc \<Longrightarrow> acc_reachable (openAll acc)"
| a_closeAll: "acc_reachable acc \<Longrightarrow> acc_reachable (closeAll acc)"
| a_destroy: "acc_reachable acc \<Longrightarrow> acc_reachable (destroy_acc acc)"

definition open_count :: "accordion \<Rightarrow> nat" where
  "open_count acc = length (filter isOpen (items acc))"

text \<open>No two different items are open; in single-open mode this is to hold.\<close>

definition at_most_one :: "accordion \<Rightarrow> bool" where
  "at_most_one acc \<longleftrightarrow>
     (\<forall>i<length (items acc). \<forall>j<length (items acc).
        isOpen (items acc ! i) \<and> isOpen (items acc ! j) \<longrightarrow> i = j)"

definition single_ok :: "accordion \<Rightarrow> bool" where
  "single_ok acc \<longleftrightarrow> (\<not> allowMultiple acc \<longrightarrow> at_most_one acc)"

section \<open>Properties of the RateLimiter\<close>

lemma ceil_div_1000_mono: "x \<le> y \<Longrightarrow> ceil_div_1000 x \<le> ceil_div_1000 y"
  unfolding ceil_div_1000_def by (intro ceiling_mono divide_right_mono) simp_all

lemma ceil_div_1000_real: "ceil_div_1000 x = \<lceil>real_of_int x / 1000\<rceil>"
proof -
  have "\<lceil>rat_of_int x / rat_of_int 1000\<rceil> = - (- x div 1000)"
    by (rule ceiling_divide_eq_div)
  moreover have "\<lceil>real_of_int x / real_of_int 1000\<rceil> = - (- x div 1000)"
    by (rule ceiling_divide_eq_div)
  ultimately show ?thesis by (simp add: ceil_div_1000_def)
qed

lemma ceil_div_1000_int: "ceil_div_1000 x = - ((- x) div 1000)"
  using ceiling_divide_eq_div[of x 1000, where ?'a = rat] by (simp add: ceil_div_1000_def)

lemma isAllowed_denied:
  assumes "maxAttempts rl \<le> int (length (validAt rl now (getAttempts rl key)))"
    and "validAt rl now (getAttempts rl key) = t # ts"
  shows "isAllowed now key rl =
           (Denied (Some (max 1 (ceil_div_1000 (t + windowMs rl - now))))
              (length (validAt rl now (getAttempts rl key))) (maxAttempts rl), rl)"
  using assms by (simp add: isAllowed_def Let_def)

lemma isAllowed_denied_empty:
  assumes "maxAttempts rl \<le> int (length (validAt rl now (getAttempts rl key)))"
    and "validAt rl now (getAttempts rl key) = []"
  shows "isAllowed now key rl = (Denied None 0 (maxAttempts rl), rl)"
  using assms by (simp add: isAllowed_def Let_def)

lemma isAllowed_allowed:
  assumes "\<not> maxAttempts rl \<le> int (length (validAt rl now (getAttempts rl key)))"
  shows "isAllowed now key rl =
           (Allowed (length (validAt rl now (getAttempts rl key)) + 1) (maxAttempts rl)
              (maxAttempts rl - int (length (validAt rl now (getAttempts rl key)) + 1)),
            rl\<lparr>attempts := (attempts rl)(key \<mapsto> validAt rl now (getAttempts rl key) @ [now])\<rparr>)"
  using assms by (simp add: isAllowed_def Let_def)

lemma scenario:
  assumes cfg: "maxAttempts rl = 3" "windowMs rl = 60000"
    and fresh: "getAttempts rl key = []"
    and ord: "t1 \<le> t2" "t2 \<le> t3" "t3 \<le> t4" "t4 < t1 + 60000"
    and late: "t1 + 60000 \<le> t5"
  shows "\<exists>r r5. fst (calls key [t1, t2, t3, t4, t5] rl) =
            [Allowed 1 3 2, Allowed 2 3 1, Allowed 3 3 0, Denied (Some r) 3 3, r5]
          \<and> 0 < r \<and> is_allowed r5"
proof -
  define rl1 where "rl1 = rl\<lparr>attempts := (attempts rl)(key \<mapsto> [t1])\<rparr>"
  define rl2 where "rl2 = rl\<lparr>attempts := (attempts rl)(key \<mapsto> [t1, t2])\<rparr>"
  define rl3 where "rl3 = rl\<lparr>attempts := (attempts rl)(key \<mapsto> [t1, t2, t3])\<rparr>"
  have c1: "isAllowed t1 key rl = (Allowed 1 3 2, rl1)"
    using cfg fresh by (simp add: isAllowed_def validAt_def rl1_def)
  have c2: "isAllowed t2 key rl1 = (Allowed 2 3 1, rl2)"
    using cfg ord by (simp add: isAllowed_def validAt_def getAttempts_def rl1_def rl2_def)
  have c3: "isAllowed t3 key rl2 = (Allowed 3 3 0, rl3)"
    using cfg ord by (simp add: isAllowed_def validAt_def getAttempts_def rl2_def rl3_def)
  have c4: "isAllowed t4 key rl3 =
              (Denied (Some (max 1 (ceil_div_1000 (t1 + 60000 - t4)))) 3 3, rl3)"
    using cfg ord by (simp add: isAllowed_def validAt_def getAttempts_def rl3_def)
  have v5: "int (length (validAt rl3 t5 (getAttempts rl3 key))) < 3"
    using cfg late by (simp add: validAt_def getAttempts_def rl3_def)
  have c5: "is_allowed (fst (isAllowed t5 key rl3))"
    using v5 cfg by (simp add: isAllowed_def Let_def is_allowed_def rl3_def)
  have "fst (calls key [t1, t2, t3, t4, t5] rl) =
          [Allowed 1 3 2, Allowed 2 3 1, Allowed 3 3 0,
           Denied (Some (max 1 (ceil_div_1000 (t1 + 60000 - t4)))) 3 3,
           fst (isAllowed t5 key rl3)]"
    by (simp add: c1 c2 c3 c4 split_beta)
  with c5 show ?thesis by force
qed

lemma length_validAt_le: "length (validAt rl now l) \<le> length l"
  by (simp add: validAt_def)

lemma isAllowed_inv: "rl_inv m w rl \<Longrightarrow> rl_inv m w (snd (isAllowed now key rl))"
  by (auto simp: rl_inv_def isAllowed_def Let_def)

lemma cleanup_inv: "rl_inv m w rl \<Longrightarrow> rl_inv m w (cleanup now rl)"
proof -
  assume a: "rl_inv m w rl"
  have "int (length l') \<le> m" if "attempts (cleanup now rl) k = Some l'" for k l'
  proof -
    from that obtain l where l: "attempts rl k = Some l" "l' = validAt rl now l"
      by (auto simp: cleanup_def Let_def split: option.splits if_splits)
    have "length l' \<le> length l" using l by (simp add: length_validAt_le)
    moreover have "int (length l) \<le> m" using a l by (simp add: rl_inv_def)
    ultimately show ?thesis by linarith
  qed
  moreover have "maxAttempts (cleanup now rl) = m" "windowMs (cleanup now rl) = w"
    using a by (simp_all add: cleanup_def rl_inv_def)
  ultimately show ?thesis by (simp add: rl_inv_def)
qed

lemma reachable_inv: "reachable m w rl \<Longrightarrow> rl_inv m w rl"
proof (induction rule: reachable.induct)
  case r_new
  show ?case by (simp add: rl_inv_def new_RateLimiter_def)
next
  case (r_isAllowed rl now key)
  then show ?case by (simp add: isAllowed_inv)
next
  case (r_cleanup rl now)
  then show ?case by (simp add: cleanup_inv)
next
  case (r_reset rl key)
  then show ?case by (auto simp: rl_inv_def resetUserAttempts_def split: if_splits)
next
  case (r_destroy rl)
  then show ?case by (simp add: rl_inv_def destroy_def)
qed

lemma denied_unchanged: "\<not> is_allowed (fst (isAllowed now key rl)) \<Longrightarrow> snd (isAllowed now key rl) = rl"
  by (simp add: isAllowed_def Let_def is_allowed_def split: if_splits)

lemma denied_iff: "\<not> is_allowed (fst (isAllowed now key rl)) \<longleftrightarrow>
    maxAttempts rl \<le> int (length (validAt rl now (getAttempts rl key)))"
  by (simp add: isAllowed_def Let_def is_allowed_def)

lemma filter_whole: "length (filter P xs) = length xs \<Longrightarrow> filter P xs = xs"
  by (metis filter_id_conv length_filter_less less_irrefl)

lemma denied_valid_whole:
  assumes "rl_inv m w rl" "\<not> is_allowed (fst (isAllowed now key rl))"
  shows "validAt rl now (getAttempts rl key) = getAttempts rl key"
proof -
  let ?l = "getAttempts rl key"
  show ?thesis
  proof (cases "attempts rl key")
    case None
    then show ?thesis by (simp add: getAttempts_def validAt_def)
  next
    case (Some l)
    then have "int (length ?l) \<le> maxAttempts rl"
      using assms(1) by (simp add: rl_inv_def getAttempts_def)
    moreover have "maxAttempts rl \<le> int (length (validAt rl now ?l))"
      using assms(2) by (simp add: denied_iff)
    moreover have "length (validAt rl now ?l) \<le> length ?l" by (rule length_validAt_le)
    ultimately have "length (validAt rl now ?l) = length ?l" by linarith
    then show ?thesis unfolding validAt_def by (rule filter_whole)
  qed
qed

lemma denied_retry:
  assumes "rl_inv m w rl" "\<not> is_allowed (fst (isAllowed now key rl))"
  shows "retryAfter (fst (isAllowed now key rl)) =
           (case getAttempts rl key of [] \<Rightarrow> None
            | t # _ \<Rightarrow> Some (max 1 (ceil_div_1000 (t + windowMs rl - now))))"
  using assms(2) denied_valid_whole[OF assms]
  by (simp add: isAllowed_def Let_def is_allowed_def split: if_splits)

lemma retry_mono:
  assumes "rl_inv m w rl" "now \<le> now'"
    "\<not> is_allowed (fst (isAllowed now key rl))" "\<not> is_allowed (fst (isAllowed now' key rl))"
  shows "retry_le (retryAfter (fst (isAllowed now' key rl))) (retryAfter (fst (isAllowed now key rl)))"
proof (cases "getAttempts rl key")
  case Nil
  then show ?thesis using assms by (simp add: denied_retry[OF assms(1)] retry_le_def)
next
  case (Cons t ts)
  have "ceil_div_1000 (t + windowMs rl - now') \<le> ceil_div_1000 (t + windowMs rl - now)"
    using assms(2) by (intro ceil_div_1000_mono) simp
  then show ?thesis using assms Cons by (simp add: denied_retry[OF assms(1)] retry_le_def)
qed


text \<open>
  \<open>isAllowed\<close> in both branches. It prunes the attempts whose age \<open>now - timestamp\<close> has
  reached \<open>windowMs\<close>. If at least \<open>maxAttempts\<close> attempts remain and there is an oldest
  one, the call is denied, the limiter is unchanged and \<open>retryAfter\<close> is the ceiling of
  \<open>(oldest + windowMs - now) / 1000\<close>, raised to 1. If fewer remain, \<open>now\<close> is appended to
  the pruned list, which is stored, and \<open>remainingAttempts\<close> is \<open>maxAttempts\<close> minus the
  new count. With the limits 3 and 60000 and no earlier attempt of the key, calls at
  \<open>t1 \<le> t2 \<le> t3\<close> are allowed, a fourth at \<open>t4 < t1 + 60000\<close> is denied with a positive
  \<open>retryAfter\<close>, and a call at \<open>t5 \<ge> t1 + 60000\<close> is allowed again.
\<close>

lemma isAllowed_characterised:
  "(let valid = filter (\<lambda>timestamp. now - timestamp < windowMs rl) (getAttempts rl key) in
      (maxAttempts rl \<le> int (length valid) \<and> valid \<noteq> [] \<longrightarrow>
         isAllowed now key rl =
           (Denied (Some (max 1 \<lceil>real_of_int (hd valid + windowMs rl - now) / 1000\<rceil>))
              (length valid) (maxAttempts rl), rl)) \<and>
      (\<not> maxAttempts rl \<le> int (length valid) \<longrightarrow>
         isAllowed now key rl =
           (Allowed (length valid + 1) (maxAttempts rl)
              (maxAttempts rl - int (length valid + 1)),
            rl\<lparr>attempts := (attempts rl)(key \<mapsto> valid @ [now])\<rparr>))) \<and>
   (maxAttempts rl = 3 \<and> windowMs rl = 60000 \<and> getAttempts rl key = [] \<and>
    t1 \<le> t2 \<and> t2 \<le> t3 \<and> t3 \<le> t4 \<and> t4 < t1 + 60000 \<and> t1 + 60000 \<le> t5 \<longrightarrow>
      (\<exists>r r5. fst (calls key [t1, t2, t3, t4, t5] rl) =
                 [Allowed 1 3 2, Allowed 2 3 1, Allowed 3 3 0, Denied (Some r) 3 3, r5]
               \<and> 0 < r \<and> is_allowed r5))"
proof -
  let ?valid = "validAt rl now (getAttempts rl key)"
  have d: "isAllowed now key rl =
             (Denied (Some (max 1 \<lceil>real_of_int (hd ?valid + windowMs rl - now) / 1000\<rceil>))
                (length ?valid) (maxAttempts rl), rl)"
    if "maxAttempts rl \<le> int (length ?valid)" "?valid \<noteq> []"
  proof -
    from that(2) obtain t ts where c: "?valid = t # ts" by (cases ?valid) auto
    show ?thesis
      using isAllowed_denied[OF that(1) c] c by (simp add: ceil_div_1000_real)
  qed
  have a: "isAllowed now key rl =
             (Allowed (length ?valid + 1) (maxAttempts rl)
                (maxAttempts rl - int (length ?valid + 1)),
              rl\<lparr>attempts := (attempts rl)(key \<mapsto> ?valid @ [now])\<rparr>)"
    if "\<not> maxAttempts rl \<le> int (length ?valid)"
    using that by (rule isAllowed_allowed)
  have s: "\<exists>r r5. fst (calls key [t1, t2, t3, t4, t5] rl) =
                 [Allowed 1 3 2, Allowed 2 3 1, Allowed 3 3 0, Denied (Some r) 3 3, r5]
               \<and> 0 < r \<and> is_allowed r5"
    if "maxAttempts rl = 3" "windowMs rl = 60000" "getAttempts rl key = []"
       "t1 \<le> t2" "t2 \<le> t3" "t3 \<le> t4" "t4 < t1 + 60000" "t1 + 60000 \<le> t5"
    using that by (rule scenario)
  from d a s show ?thesis unfolding validAt_def Let_def by blast
qed

lemma isAllowed_characterised_example:
  "isAllowed 3000 ''k'' \<lparr>maxAttempts = 3, windowMs = 60000,
       attempts = [''k'' \<mapsto> [0, 1000, 2000]]\<rparr> =
     (Denied (Some 57) 3 3,
      \<lparr>maxAttempts = 3, windowMs = 60000, attempts = [''k'' \<mapsto> [0, 1000, 2000]]\<rparr>) \<and>
   isAllowed 0 ''k'' (new_RateLimiter 3 60000) =
     (Allowed 1 3 2, (new_RateLimiter 3 60000)\<lparr>attempts := [''k'' \<mapsto> [0]]\<rparr>) \<and>
   (\<exists>r r5. fst (calls ''k'' [0, 1000, 2000, 3000, 60000] (new_RateLimiter 3 60000)) =
              [Allowed 1 3 2, Allowed 2 3 1, Allowed 3 3 0, Denied (Some r) 3 3, r5]
            \<and> 0 < r \<and> is_allowed r5)"
proof -
  let ?full = "\<lparr>maxAttempts = 3, windowMs = 60000, attempts = [''k'' \<mapsto> [0, 1000, 2000]]\<rparr>"
  let ?new = "new_RateLimiter 3 60000"
  have g: "getAttempts ?full ''k'' = [0, 1000, 2000]" "getAttempts ?new ''k'' = []"
    by (simp_all add: getAttempts_def new_RateLimiter_def)
  have c: "maxAttempts ?new = 3" "windowMs ?new = 60000" "attempts ?new = Map.empty"
    by (simp_all add: new_RateLimiter_def)
  have "isAllowed 3000 ''k'' ?full = (Denied (Some 57) 3 3, ?full)"
    using isAllowed_characterised [of 3000 ?full "''k''" 0 0 0 0 0]
    by (simp add: g Let_def eval_nat_numeral)
  moreover have "isAllowed 0 ''k'' ?new = (Allowed 1 3 2, ?new\<lparr>attempts := [''k'' \<mapsto> [0]]\<rparr>)"
    using isAllowed_characterised [of 0 ?new "''k''" 0 0 0 0 0] by (simp add: g c Let_def)
  moreover have "\<exists>r r5. fst (calls ''k'' [0, 1000, 2000, 3000, 60000] ?new) =
              [Allowed 1 3 2, Allowed 2 3 1, Allowed 3 3 0, Denied (Some r) 3 3, r5]
            \<and> 0 < r \<and> is_allowed r5"
    using isAllowed_characterised [of 0 ?new "''k''" 0 1000 2000 3000 60000, THEN conjunct2] g(2) c(1,2)
    by simp
  ultimately show ?thesis by blast
qed

text \<open>
  Claim C1. Whenever at least \<open>maxAttempts\<close> valid attempts remain, \<open>isAllowed\<close> is to
  answer \<open>allowed: false\<close> with a \<open>retryAfter\<close> of at least 1; the code says
  \<open>Math.max(1, retryAfter)\<close>, "ensure positive value". For a limiter constructed with
  \<open>maxAttempts = 0\<close> every call is denied with no attempt on record: \<open>validAttempts[0]\<close> is
  \<open>undefined\<close>, and the \<open>retryAfter\<close> returned is \<open>NaN\<close>, which is not at least 1. The
  limiter is left unchanged, so every later call gives the same answer.
\<close>

theorem C1_zero_limit_retryAfter_NaN:
  "isAllowed 5 ''k'' (new_RateLimiter 0 60000) = (Denied None 0 0, new_RateLimiter 0 60000) \<and>
   \<not> (\<exists>r. retryAfter (fst (isAllowed 5 ''k'' (new_RateLimiter 0 60000))) = Some r \<and> 1 \<le> r)"
  by (simp add: isAllowed_def new_RateLimiter_def getAttempts_def validAt_def)

text \<open>
  Claim C9. In every state a limiter can reach, a denied call returns the limiter as it
  was (nothing is recorded and the pruned list is not stored), so the next call sees the
  same attempts; and of two consecutive denied calls for a key, the later one (at a clock
  value that is not earlier) never returns a larger \<open>retryAfter\<close>.
\<close>

theorem C9_denied_leaves_state:
  "reachable m w rl \<Longrightarrow>
     (\<not> is_allowed (fst (isAllowed now key rl)) \<longrightarrow>
        snd (isAllowed now key rl) = rl \<and>
        isAllowed now' key' (snd (isAllowed now key rl)) = isAllowed now' key' rl) \<and>
     (now \<le> now' \<and> \<not> is_allowed (fst (isAllowed now key rl)) \<and>
      \<not> is_allowed (fst (isAllowed now' key (snd (isAllowed now key rl)))) \<longrightarrow>
        retry_le (retryAfter (fst (isAllowed now' key (snd (isAllowed now key rl)))))
                 (retryAfter (fst (isAllowed now key rl))))"
proof -
  assume r: "reachable m w rl"
  have inv: "rl_inv m w rl" using r by (rule reachable_inv)
  have u: "snd (isAllowed now key rl) = rl" if "\<not> is_allowed (fst (isAllowed now key rl))"
    using that by (rule denied_unchanged)
  have m: "retry_le (retryAfter (fst (isAllowed now' key (snd (isAllowed now key rl)))))
                 (retryAfter (fst (isAllowed now key rl)))"
    if "now \<le> now'" "\<not> is_allowed (fst (isAllowed now key rl))"
       "\<not> is_allowed (fst (isAllowed now' key (snd (isAllowed now key rl))))"
    using retry_mono[OF inv that(1) that(2)] that(3) u[OF that(2)] by simp
  have "isAllowed now' key' (snd (isAllowed now key rl)) = isAllowed now' key' rl"
    if "\<not> is_allowed (fst (isAllowed now key rl))"
    using u[OF that] by simp
  with u m show ?thesis by blast
qed

theorem C9_denied_leaves_state_witness:
  "reachable 1 60000 (snd (isAllowed 0 ''k'' (new_RateLimiter 1 60000))) \<and>
   (1000::int) \<le> 2000 \<and>
   fst (isAllowed 1000 ''k'' (snd (isAllowed 0 ''k'' (new_RateLimiter 1 60000)))) =
     Denied (Some 59) 1 1 \<and>
   snd (isAllowed 1000 ''k'' (snd (isAllowed 0 ''k'' (new_RateLimiter 1 60000)))) =
     snd (isAllowed 0 ''k'' (new_RateLimiter 1 60000)) \<and>
   fst (isAllowed 2000 ''k''
          (snd (isAllowed 1000 ''k'' (snd (isAllowed 0 ''k'' (new_RateLimiter 1 60000)))))) =
     Denied (Some 58) 1 1 \<and>
   retry_le (Some 58) (Some 59)"
proof -
  let ?rl = "snd (isAllowed 0 ''k'' (new_RateLimiter 1 60000))"
  have r: "reachable 1 60000 ?rl"
    by (intro r_isAllowed r_new)
  have e: "?rl = \<lparr>maxAttempts = 1, windowMs = 60000, attempts = [''k'' \<mapsto> [0]]\<rparr>"
    by (simp add: isAllowed_def new_RateLimiter_def getAttempts_def validAt_def)
  have d1: "fst (isAllowed 1000 ''k'' ?rl) = Denied (Some 59) 1 1"
    unfolding e by (simp add: isAllowed_def getAttempts_def validAt_def ceil_div_1000_int)
  have d2: "fst (isAllowed 2000 ''k'' ?rl) = Denied (Some 58) 1 1"
    unfolding e by (simp add: isAllowed_def getAttempts_def validAt_def ceil_div_1000_int)
  have n1: "\<not> is_allowed (fst (isAllowed 1000 ''k'' ?rl))"
    unfolding d1 by (simp add: is_allowed_def)
  have le: "(1000::int) \<le> 2000" by simp
  note C9 = C9_denied_leaves_state [OF r, of 1000 "''k''" 2000 "''k''"]
  have u: "snd (isAllowed 1000 ''k'' ?rl) = ?rl"
    using C9 [THEN conjunct1] n1 by blast
  have n2: "\<not> is_allowed (fst (isAllowed 2000 ''k'' (snd (isAllowed 1000 ''k'' ?rl))))"
    unfolding u d2 by (simp add: is_allowed_def)
  have "retry_le (retryAfter (fst (isAllowed 2000 ''k'' (snd (isAllowed 1000 ''k'' ?rl)))))
          (retryAfter (fst (isAllowed 1000 ''k'' ?rl)))"
    using C9 [THEN conjunct2] n1 n2 le by blast
  then have "retry_le (Some 58) (Some 59)"
    unfolding u d1 d2 by simp
  moreover have "fst (isAllowed 2000 ''k'' (snd (isAllowed 1000 ''k'' ?rl))) = Denied (Some 58) 1 1"
    unfolding u by (rule d2)
  ultimately show ?thesis using r d1 u by simp
qed


section \<open>Properties of the PropertyFilter\<close>

lemma filteredProperties_applyFilters:
  "filteredProperties (applyFilters s) = filter (filterCallback (filters s)) (allProperties s)"
  by (simp add: applyFilters_def updateResultsCount_def render_def split: option.splits)

lemma allProperties_applyFilters: "allProperties (applyFilters s) = allProperties s"
  by (simp add: applyFilters_def updateResultsCount_def render_def split: option.splits)

lemma filters_applyFilters: "filters (applyFilters s) = filters s"
  by (simp add: applyFilters_def updateResultsCount_def render_def split: option.splits)

lemma container_applyFilters:
  "container (applyFilters s) =
     (case container s of None \<Rightarrow> None
      | Some _ \<Rightarrow>
          (let R = filter (filterCallback (filters s)) (allProperties s)
           in if R = [] then Some NoResults
              else Some (Cards (map (\<lambda>(index, prop). createPropertyCard prop index)
                                  (enumerate 0 R)))))"
  by (simp add: applyFilters_def updateResultsCount_def render_def Let_def split: option.splits)

lemma filterCallback_default: "filterCallback defaultFilters prop"
  by (simp add: filterCallback_def defaultFilters_def tagTest_def)

text \<open>
  Claim C3. With the default criteria (no bedroom, bathroom or price bound, empty property
  type and search, no selected tag) \<open>applyFilters\<close> leaves every property in: the
  filtered list is the whole property list, whatever that list is.
\<close>

theorem C3_empty_criteria_identity:
  "filteredProperties (applyFilters (s\<lparr>filters := defaultFilters\<rparr>)) = allProperties s"
  by (simp add: filteredProperties_applyFilters filterCallback_default)

lemma tagTest_subset:
  "tagTest f prop \<longleftrightarrow> set (filters_tags f) \<subseteq> set (propTags prop)"
  by (auto simp: tagTest_def hasAllTags_def list_all_iff)

lemma filterCallback_split:
  "filterCallback f prop \<longleftrightarrow>
     filterCallback (f\<lparr>filters_tags := []\<rparr>) prop \<and> tagTest f prop"
  by (auto simp: filterCallback_def tagTest_def)

lemma filterCallback_tags_mono:
  assumes "set (filters_tags f) \<subseteq> set ts" "filterCallback (f\<lparr>filters_tags := ts\<rparr>) prop"
  shows "filterCallback f prop"
proof -
  have "filterCallback (f\<lparr>filters_tags := []\<rparr>) prop" "tagTest (f\<lparr>filters_tags := ts\<rparr>) prop"
    using assms(2) filterCallback_split[of "f\<lparr>filters_tags := ts\<rparr>" "prop"] by simp_all
  moreover have "tagTest f prop"
    using calculation(2) assms(1) unfolding tagTest_subset by auto
  ultimately show ?thesis using filterCallback_split[of f "prop"] by simp
qed

lemma length_filter_mono:
  "(\<And>x. x \<in> set xs \<Longrightarrow> P x \<Longrightarrow> Q x) \<Longrightarrow> length (filter P xs) \<le> length (filter Q xs)"
  by (induction xs) auto

lemma tags_monotone:
  assumes "set (filters_tags f) \<subseteq> set ts"
  shows "length (filteredProperties (applyFilters (s\<lparr>filters := f\<lparr>filters_tags := ts\<rparr>\<rparr>)))
       \<le> length (filteredProperties (applyFilters (s\<lparr>filters := f\<rparr>)))"
  unfolding filteredProperties_applyFilters
  using filterCallback_tags_mono[OF assms] by (auto intro!: length_filter_mono)

lemma filterCallback_tags:
  "filterCallback f prop \<longleftrightarrow>
     filterCallback (f\<lparr>filters_tags := []\<rparr>) prop \<and> set (filters_tags f) \<subseteq> set (propTags prop)"
  using filterCallback_split[of f "prop"] by (simp add: tagTest_subset)

lemma filterCallback_push_tag:
  "filterCallback (f\<lparr>filters_tags := filters_tags f @ [tag]\<rparr>) prop \<longleftrightarrow>
     filterCallback f prop \<and> tag \<in> set (propTags prop)"
  using filterCallback_tags[of "f\<lparr>filters_tags := filters_tags f @ [tag]\<rparr>" "prop"]
    filterCallback_tags[of f "prop"]
  by auto

lemma section8_example:
  "map prop_name (filteredProperties
     (applyFilters (example_page\<lparr>filters := defaultFilters\<lparr>filters_tags := [''Section 8'']\<rparr>\<rparr>)))
     = [Some ''Elm'']"
  by code_simp

text \<open>
  Claim C4. In \<open>applyFilters\<close> a property passes exactly when it passes the criteria
  other than the tags and every selected tag is among its own tags (a property without
  tags has none): the filtered list is the list filtered without the tags, cut down to
  the properties whose tags include all selected ones. Selecting one more tag keeps, of
  the properties filtered so far, exactly those that carry the new tag, so the filtered
  list never gets longer. In the example listing only \<open>Elm\<close> carries \<open>Section 8\<close>, and
  selecting that tag leaves \<open>Elm\<close> alone.
\<close>

theorem C4_tag_filter_and:
  "(filterCallback f prop \<longleftrightarrow>
      filterCallback (f\<lparr>filters_tags := []\<rparr>) prop \<and>
      set (filters_tags f) \<subseteq> set (propTags prop)) \<and>
   filteredProperties (applyFilters (s\<lparr>filters := f\<rparr>)) =
     filter (\<lambda>p. set (filters_tags f) \<subseteq> set (propTags p))
       (filteredProperties (applyFilters (s\<lparr>filters := f\<lparr>filters_tags := []\<rparr>\<rparr>))) \<and>
   filteredProperties
       (applyFilters (s\<lparr>filters := f\<lparr>filters_tags := filters_tags f @ [tag]\<rparr>\<rparr>)) =
     filter (\<lambda>p. tag \<in> set (propTags p)) (filteredProperties (applyFilters (s\<lparr>filters := f\<rparr>))) \<and>
   length (filteredProperties
             (applyFilters (s\<lparr>filters := f\<lparr>filters_tags := filters_tags f @ [tag]\<rparr>\<rparr>)))
     \<le> length (filteredProperties (applyFilters (s\<lparr>filters := f\<rparr>))) \<and>
   map prop_name (filteredProperties
     (applyFilters (example_page\<lparr>filters := defaultFilters\<lparr>filters_tags := [''Section 8'']\<rparr>\<rparr>)))
     = [Some ''Elm'']"
proof -
  have 1: "filterCallback f prop \<longleftrightarrow>
      filterCallback (f\<lparr>filters_tags := []\<rparr>) prop \<and>
      set (filters_tags f) \<subseteq> set (propTags prop)"
    by (rule filterCallback_tags)
  have 2: "filteredProperties (applyFilters (s\<lparr>filters := f\<rparr>)) =
     filter (\<lambda>p. set (filters_tags f) \<subseteq> set (propTags p))
       (filteredProperties (applyFilters (s\<lparr>filters := f\<lparr>filters_tags := []\<rparr>\<rparr>)))"
  proof -
    have "filter (filterCallback f) (allProperties s) =
            filter (\<lambda>p. filterCallback (f\<lparr>filters_tags := []\<rparr>) p \<and>
                        set (filters_tags f) \<subseteq> set (propTags p)) (allProperties s)"
      by (rule filter_cong[OF refl]) (rule filterCallback_tags)
    then show ?thesis
      unfolding filteredProperties_applyFilters by (simp add: conj_commute)
  qed
  have 3: "filteredProperties
       (applyFilters (s\<lparr>filters := f\<lparr>filters_tags := filters_tags f @ [tag]\<rparr>\<rparr>)) =
     filter (\<lambda>p. tag \<in> set (propTags p)) (filteredProperties (applyFilters (s\<lparr>filters := f\<rparr>)))"
  proof -
    have "filter (filterCallback (f\<lparr>filters_tags := filters_tags f @ [tag]\<rparr>)) (allProperties s) =
            filter (\<lambda>p. filterCallback f p \<and> tag \<in> set (propTags p)) (allProperties s)"
      by (rule filter_cong[OF refl]) (rule filterCallback_push_tag)
    then show ?thesis
      unfolding filteredProperties_applyFilters by (simp add: conj_commute)
  qed
  have 4: "length (filteredProperties
             (applyFilters (s\<lparr>filters := f\<lparr>filters_tags := filters_tags f @ [tag]\<rparr>\<rparr>)))
     \<le> length (filteredProperties (applyFilters (s\<lparr>filters := f\<rparr>)))"
    unfolding 3 by (rule length_filter_le)
  from 1 2 3 4 section8_example show ?thesis by blast
qed

lemma filter_position:
  assumes "i < length P" "Q (P ! i)"
  shows "length (filter Q (take i P)) < length (filter Q P)"
    and "filter Q P ! length (filter Q (take i P)) = P ! i"
proof -
  have "P = take i P @ P ! i # drop (Suc i) P"
    using assms(1) by (simp add: id_take_nth_drop)
  then have "filter Q P = filter Q (take i P) @ filter Q (P ! i # drop (Suc i) P)"
    by (metis filter_append)
  then have e: "filter Q P = filter Q (take i P) @ P ! i # filter Q (drop (Suc i) P)"
    using assms(2) by simp
  show "length (filter Q (take i P)) < length (filter Q P)"
    using arg_cong[OF e, of length] by simp
  show "filter Q P ! length (filter Q (take i P)) = P ! i"
    using arg_cong[OF e, of "\<lambda>l. l ! length (filter Q (take i P))"] by simp
qed

lemma filter_position_less:
  assumes "i < j" "j < length P" "Q (P ! i)"
  shows "length (filter Q (take i P)) < length (filter Q (take j P))"
proof -
  have "take i (take j P) = take i P" using assms(1) by (simp add: min_def)
  moreover have "i < length (take j P)" "Q (take j P ! i)" using assms by simp_all
  ultimately show ?thesis using filter_position(1)[of i "take j P" Q] by simp
qed

lemma map_card_prop_enumerate:
  "map card_prop (map (\<lambda>(index, prop). createPropertyCard prop index) (enumerate n R)) = R"
  by (induction R arbitrary: n) (simp_all add: createPropertyCard_def)

lemma animationDelay_enumerate:
  "k < length R \<Longrightarrow>
   animationDelay (map (\<lambda>(index, prop). createPropertyCard prop index) (enumerate n R) ! k)
     = (n + k) * 50"
  by (simp add: nth_enumerate_eq createPropertyCard_def)

text \<open>
  Claim C5. \<open>applyFilters\<close> keeps the order of \<open>allProperties\<close>: the filtered list is a
  subsequence of it, and two passing properties at positions \<open>i < j\<close> are found in the
  filtered list at the positions given by the number of passing properties before each,
  the first before the second. When there is a container and something passed, \<open>render\<close>
  puts one card per filtered property into it, in the order of the filtered list, the
  \<open>k\<close>-th card carrying the delay \<open>k * 50\<close>.
\<close>

theorem C5_order_preserving:
  "(let P = allProperties s; R = filteredProperties (applyFilters s);
        pass = filterCallback (filters s) in
      subseq R P \<and>
      (\<forall>i j. i < j \<and> j < length P \<and> pass (P ! i) \<and> pass (P ! j) \<longrightarrow>
         (let i' = length (filter pass (take i P)); j' = length (filter pass (take j P))
          in i' < j' \<and> j' < length R \<and> R ! i' = P ! i \<and> R ! j' = P ! j)) \<and>
      (container s \<noteq> None \<and> R \<noteq> [] \<longrightarrow>
         (\<exists>cs. container (applyFilters s) = Some (Cards cs) \<and> map card_prop cs = R \<and>
               (\<forall>k<length cs. animationDelay (cs ! k) = k * 50))))"
proof -
  let ?P = "allProperties s" and ?pass = "filterCallback (filters s)"
  let ?R = "filter ?pass ?P"
  have sub: "subseq ?R ?P" by simp
  have pos: "length (filter ?pass (take i ?P)) < length (filter ?pass (take j ?P)) \<and>
             length (filter ?pass (take j ?P)) < length ?R \<and>
             ?R ! length (filter ?pass (take i ?P)) = ?P ! i \<and>
             ?R ! length (filter ?pass (take j ?P)) = ?P ! j"
    if "i < j" "j < length ?P" "?pass (?P ! i)" "?pass (?P ! j)" for i j
  proof -
    have i: "i < length ?P" using that by simp
    show ?thesis
      using filter_position_less[of i j ?P ?pass] filter_position[of j ?P ?pass]
        filter_position(2)[of i ?P ?pass] that i by simp
  qed
  have cards: "\<exists>cs. container (applyFilters s) = Some (Cards cs) \<and> map card_prop cs = ?R \<and>
               (\<forall>k<length cs. animationDelay (cs ! k) = k * 50)"
    if "container s \<noteq> None" "?R \<noteq> []"
  proof -
    let ?cs = "map (\<lambda>(index, prop). createPropertyCard prop index) (enumerate 0 ?R)"
    have "container (applyFilters s) = Some (Cards ?cs)"
      using that by (auto simp: container_applyFilters Let_def)
    moreover have "map card_prop ?cs = ?R" by (rule map_card_prop_enumerate)
    moreover have "\<forall>k<length ?cs. animationDelay (?cs ! k) = k * 50"
      using animationDelay_enumerate[of _ ?R 0] by simp
    ultimately show ?thesis by blast
  qed
  show ?thesis
    unfolding Let_def filteredProperties_applyFilters
    using sub pos cards by blast
qed

theorem C5_order_preserving_witness:
  "(0::nat) < 2 \<and> 2 < length (allProperties example_filter) \<and>
   filterCallback (filters example_filter) (allProperties example_filter ! 0) \<and>
   filterCallback (filters example_filter) (allProperties example_filter ! 2) \<and>
   filteredProperties (applyFilters example_filter) ! 0 = allProperties example_filter ! 0 \<and>
   filteredProperties (applyFilters example_filter) ! 1 = allProperties example_filter ! 2 \<and>
   container example_filter \<noteq> None \<and> filteredProperties (applyFilters example_filter) \<noteq> [] \<and>
   (\<exists>cs. container (applyFilters example_filter) = Some (Cards cs) \<and>
         map card_prop cs = filteredProperties (applyFilters example_filter))"
proof -
  let ?P = "allProperties example_filter" and ?pass = "filterCallback (filters example_filter)"
  let ?R = "filteredProperties (applyFilters example_filter)"
  have P: "?P = example_listing"
    by (simp add: example_filter_def new_PropertyFilter_def)
  have p: "?pass (example_property ''Oak'' 3 [''Pet Friendly''])"
    "\<not> ?pass (example_property ''Elm'' 1 [''Pet Friendly'', ''Section 8''])"
    "?pass (example_property ''Ash'' 4 [])"
    by (simp_all add: example_filter_def new_PropertyFilter_def defaultFilters_def
          filterCallback_def example_property_def tagTest_def)
  have h: "(0::nat) < 2" "2 < length ?P" "?pass (?P ! 0)" "?pass (?P ! 2)"
    using p by (simp_all add: P example_listing_def)
  have c: "container example_filter \<noteq> None"
    by (simp add: example_filter_def new_PropertyFilter_def)
  have t: "length (filter ?pass (take 0 ?P)) = 0" "length (filter ?pass (take 2 ?P)) = 1"
    using p by (simp_all add: P example_listing_def)
  note C5 = C5_order_preserving [of example_filter, unfolded Let_def]
  have "?R ! 0 = ?P ! 0 \<and> ?R ! 1 = ?P ! 2"
    using C5 [THEN conjunct2, THEN conjunct1, rule_format, of 0 2] h t by simp
  moreover have "1 < length ?R"
    using C5 [THEN conjunct2, THEN conjunct1, rule_format, of 0 2] h t by simp
  then have n: "?R \<noteq> []" by auto
  moreover have "\<exists>cs. container (applyFilters example_filter) = Some (Cards cs) \<and>
         map card_prop cs = ?R"
    using C5 [THEN conjunct2, THEN conjunct2] c n by blast
  ultimately show ?thesis using h c n by blast
qed


subsection \<open>The debounced inputs\<close>

lemma debounceDelay_applyFilters: "debounceDelay (applyFilters s) = debounceDelay s"
  by (simp add: applyFilters_def updateResultsCount_def render_def split: option.splits)

lemma run_pending_burst:
  assumes "within_window (debounceDelay s) t0 b"
    and "debounceTimeout s = Some (t0 + debounceDelay s, SearchCommit)"
    and "searchInput_value s = v0"
    and "fst (last ((t0, v0) # b)) + debounceDelay s \<le> final"
  shows "fst (run (searchInputs b) final s) =
           [\<lparr>commit_time = fst (last ((t0, v0) # b)) + debounceDelay s,
             commit_callback = SearchCommit,
             commit_filters = (filters s)
               \<lparr>filters_search := js_trim (toLowerCase (snd (last ((t0, v0) # b))))\<rparr>\<rparr>]"
  using assms
proof (induction b arbitrary: s t0 v0)
  case Nil
  then show ?case
    by (simp add: searchInputs_def advance_def filters_applyFilters)
next
  case (Cons e r)
  obtain t v where e: "e = (t, v)" by (cases e)
  let ?s1 = "onInput t (SearchInput v) s"
  have adv: "advance t s = ([], s)"
    using Cons.prems e by (simp add: advance_def)
  have d: "debounceDelay ?s1 = debounceDelay s" by simp
  have "fst (run (searchInputs r) final ?s1) =
           [\<lparr>commit_time = fst (last ((t, v) # r)) + debounceDelay ?s1,
             commit_callback = SearchCommit,
             commit_filters = (filters ?s1)
               \<lparr>filters_search := js_trim (toLowerCase (snd (last ((t, v) # r))))\<rparr>\<rparr>]"
  proof (rule Cons.IH)
    show "within_window (debounceDelay ?s1) t r" using Cons.prems e by simp
    show "debounceTimeout ?s1 = Some (t + debounceDelay ?s1, SearchCommit)" by simp
    show "searchInput_value ?s1 = v" by simp
    show "fst (last ((t, v) # r)) + debounceDelay ?s1 \<le> final"
      using Cons.prems e by simp
  qed
  then show ?case
    using e adv by (simp add: searchInputs_def split_beta)
qed

text \<open>
  The debounce of one control: a burst of search inputs, each less than the delay after
  the one before, with no timer pending at its start, leads to exactly one call of
  \<open>applyFilters\<close> by a timer, \<open>debounceDelay\<close> after the last input and with the last
  value (lower-cased and trimmed) as the search criterion.
\<close>

lemma search_burst_commits_once:
  assumes "debounceTimeout s = None" "within_window (debounceDelay s) t0 b"
    and "fst (last ((t0, v0) # b)) + debounceDelay s \<le> final"
  shows "fst (run (searchInputs ((t0, v0) # b)) final s) =
           [\<lparr>commit_time = fst (last ((t0, v0) # b)) + debounceDelay s,
             commit_callback = SearchCommit,
             commit_filters = (filters s)
               \<lparr>filters_search := js_trim (toLowerCase (snd (last ((t0, v0) # b))))\<rparr>\<rparr>]"
proof -
  let ?s1 = "onInput t0 (SearchInput v0) s"
  have adv: "advance t0 s = ([], s)" using assms(1) by (simp add: advance_def)
  have "fst (run (searchInputs b) final ?s1) =
           [\<lparr>commit_time = fst (last ((t0, v0) # b)) + debounceDelay ?s1,
             commit_callback = SearchCommit,
             commit_filters = (filters ?s1)
               \<lparr>filters_search := js_trim (toLowerCase (snd (last ((t0, v0) # b))))\<rparr>\<rparr>]"
    using assms by (intro run_pending_burst) simp_all
  then show ?thesis using adv by (simp add: searchInputs_def split_beta)
qed

text \<open>
  Claim C2. A burst of inputs to the search control commits once, with the last value,
  one delay after the last input (the lemma above), and the search and price debounces
  are to resolve independently, so that a price input neither cancels nor alters a
  pending search commit. The code keeps one timer handle for both controls, and the
  second part fails: a search input at 0 alone is committed at 300, but followed by a
  minimum-price input at 100 it is never committed. The only timer that runs is the
  price one, at 400; the search box still shows \<open>Oak\<close> and the search criterion stays
  empty.
\<close>

theorem C2_price_input_cancels_search:
  "fst (run [(0, SearchInput ''Oak'')] 1000 example_page) =
     [\<lparr>commit_time = 300, commit_callback = SearchCommit,
       commit_filters = defaultFilters\<lparr>filters_search := ''oak''\<rparr>\<rparr>] \<and>
   fst (run [(0, SearchInput ''Oak''), (100, MinPriceInput ''500'')] 1000 example_page) =
     [\<lparr>commit_time = 400, commit_callback = PriceCommit,
       commit_filters = defaultFilters\<lparr>filters_minPrice := Some (Num 500)\<rparr>\<rparr>] \<and>
   searchInput_value (snd (run [(0, SearchInput ''Oak''), (100, MinPriceInput ''500'')] 1000 example_page))
     = ''Oak'' \<and>
   filters_search (filters
     (snd (run [(0, SearchInput ''Oak''), (100, MinPriceInput ''500'')] 1000 example_page))) = []"
  by code_simp


section \<open>Properties of the regular expressions\<close>

lemma nullable_iff: "nullable r \<longleftrightarrow> [] \<in> lang r"
  by (induction r) (auto intro: star.intros)

lemma star_cons:
  "c # w \<in> star A \<longleftrightarrow> (\<exists>u v. w = u @ v \<and> c # u \<in> A \<and> v \<in> star A)"
proof
  assume "c # w \<in> star A"
  then show "\<exists>u v. w = u @ v \<and> c # u \<in> A \<and> v \<in> star A"
  proof (induction "c # w" rule: star.induct)
    case (star_app u v)
    show ?case
    proof (cases u)
      case Nil
      with star_app show ?thesis by simp
    next
      case (Cons a u')
      with star_app show ?thesis by auto
    qed
  qed
next
  assume "\<exists>u v. w = u @ v \<and> c # u \<in> A \<and> v \<in> star A"
  then obtain u v where "w = u @ v" "c # u \<in> A" "v \<in> star A" by blast
  then show "c # w \<in> star A" using star_app[of "c # u" A v] by simp
qed

lemma lang_deriv: "w \<in> lang (deriv c r) \<longleftrightarrow> c # w \<in> lang r"
proof (induction r arbitrary: w)
  case (Seq r s)
  show ?case
  proof
    assume "w \<in> lang (deriv c (Seq r s))"
    then consider "\<exists>u v. w = u @ v \<and> u \<in> lang (deriv c r) \<and> v \<in> lang s"
      | "nullable r" "w \<in> lang (deriv c s)"
      by (auto split: if_splits)
    then show "c # w \<in> lang (Seq r s)"
    proof cases
      case 1
      then obtain u v where "w = u @ v" "c # u \<in> lang r" "v \<in> lang s"
        using Seq.IH(1) by blast
      then have "(c # u) @ v = c # w" "c # u \<in> lang r" "v \<in> lang s" by simp_all
      then show ?thesis by (metis (mono_tags, lifting) lang.simps(4) mem_Collect_eq)
    next
      case 2
      then have "[] \<in> lang r" "c # w \<in> lang s"
        using Seq.IH(2) by (simp_all add: nullable_iff)
      then have "[] @ (c # w) \<in> lang (Seq r s)" by (simp del: append_Nil) blast
      then show ?thesis by simp
    qed
  next
    assume "c # w \<in> lang (Seq r s)"
    then obtain u v where uv: "c # w = u @ v" "u \<in> lang r" "v \<in> lang s" by auto
    show "w \<in> lang (deriv c (Seq r s))"
    proof (cases u)
      case Nil
      then have "nullable r" "w \<in> lang (deriv c s)"
        using uv Seq.IH(2) by (simp_all add: nullable_iff)
      then show ?thesis by simp
    next
      case (Cons a u')
      then have "a = c" "w = u' @ v" "u' \<in> lang (deriv c r)"
        using uv Seq.IH(1) by simp_all
      then show ?thesis using uv(3) by auto
    qed
  qed
next
  case (Many r)
  have "w \<in> lang (deriv c (Many r)) \<longleftrightarrow>
          (\<exists>u v. w = u @ v \<and> u \<in> lang (deriv c r) \<and> v \<in> star (lang r))"
    by auto
  also have "\<dots> \<longleftrightarrow> (\<exists>u v. w = u @ v \<and> c # u \<in> lang r \<and> v \<in> star (lang r))"
    using Many.IH by simp
  also have "\<dots> \<longleftrightarrow> c # w \<in> lang (Many r)"
    by (simp add: star_cons)
  finally show ?case .
qed auto

lemma rx_test_lang: "rx_test r s \<longleftrightarrow> s \<in> lang r"
  unfolding rx_test_def
  by (induction s arbitrary: r) (simp_all add: nullable_iff lang_deriv)

lemma lang_opt: "lang (opt r) = insert [] (lang r)"
  by (auto simp: opt_def)

lemma lang_lit: "lang (lit s) = {s}"
  by (induction s) (auto simp: in_class_def)

lemma lang_seqs_Cons:
  "lang (seqs (r # rs)) = {u @ v | u v. u \<in> lang r \<and> v \<in> lang (seqs rs)}"
  by (cases rs) auto

lemma lang_SeqI: "u \<in> lang r \<Longrightarrow> v \<in> lang s \<Longrightarrow> u @ v \<in> lang (Seq r s)"
  by auto

lemma lang_rep_class:
  "lang (rep n (OneOf neg members)) = {w. length w = n \<and> (\<forall>c\<in>set w. in_class neg members c)}"
proof (induction n)
  case 0
  show ?case by auto
next
  case (Suc n)
  show ?case
  proof (intro set_eqI iffI)
    fix w assume "w \<in> lang (rep (Suc n) (OneOf neg members))"
    then show "w \<in> {w. length w = Suc n \<and> (\<forall>c\<in>set w. in_class neg members c)}"
      using Suc by auto
  next
    fix w assume "w \<in> {w. length w = Suc n \<and> (\<forall>c\<in>set w. in_class neg members c)}"
    then obtain c u where "w = c # u" "in_class neg members c" "length u = n"
      "\<forall>c\<in>set u. in_class neg members c"
      by (cases w) auto
    then have w: "w = [c] @ u" and "[c] \<in> lang (OneOf neg members)"
      "u \<in> lang (rep n (OneOf neg members))"
      using Suc by auto
    then have "[c] @ u \<in> lang (Seq (OneOf neg members) (rep n (OneOf neg members)))"
      by (intro lang_SeqI)
    then show "w \<in> lang (rep (Suc n) (OneOf neg members))" using w by simp
  qed
qed

lemma star_class: "star {[c] | c. P c} = {w. \<forall>c\<in>set w. P c}"
proof (intro set_eqI iffI)
  fix w assume "w \<in> star {[c] | c. P c}"
  then show "w \<in> {w. \<forall>c\<in>set w. P c}"
    by (induction rule: star.induct) auto
next
  fix w assume "w \<in> {w. \<forall>c\<in>set w. P c}"
  then have "\<forall>c\<in>set w. P c" by simp
  then show "w \<in> star {[c] | c. P c}"
  proof (induction w)
    case Nil
    show ?case by (rule star_nil)
  next
    case (Cons a w)
    then have "[a] \<in> {[c] | c. P c}" "w \<in> star {[c] | c. P c}" by auto
    then have "[a] @ w \<in> star {[c] | c. P c}" by (rule star_app)
    then show ?case by simp
  qed
qed

lemma lang_some_class:
  "lang (some (OneOf neg members)) = {w. w \<noteq> [] \<and> (\<forall>c\<in>set w. in_class neg members c)}"
proof (intro set_eqI iffI)
  fix w assume "w \<in> lang (some (OneOf neg members))"
  then show "w \<in> {w. w \<noteq> [] \<and> (\<forall>c\<in>set w. in_class neg members c)}"
    by (auto simp: some_def star_class)
next
  fix w assume "w \<in> {w. w \<noteq> [] \<and> (\<forall>c\<in>set w. in_class neg members c)}"
  then obtain c u where "w = [c] @ u" "in_class neg members c" "\<forall>c\<in>set u. in_class neg members c"
    by (cases w) auto
  then show "w \<in> lang (some (OneOf neg members))"
    unfolding some_def lang.simps star_class by blast
qed

lemma rng_digit: "cls_has (Rng CHR ''0'' CHR ''9'') c \<longleftrightarrow> is_digit c"
proof -
  have "(48 \<le> n \<and> n \<le> 57) \<longleftrightarrow>
        n = 48 \<or> n = 49 \<or> n = 50 \<or> n = 51 \<or> n = 52 \<or> n = 53 \<or> n = 54 \<or> n = 55 \<or>
        n = 56 \<or> n = 57" for n :: nat
    by arith
  then have "(48 \<le> (of_char c :: nat) \<and> (of_char c :: nat) \<le> 57) \<longleftrightarrow>
        (of_char c :: nat) \<in> {48, 49, 50, 51, 52, 53, 54, 55, 56, 57}"
    by simp
  also have "\<dots> \<longleftrightarrow> (of_char c :: nat) \<in> of_char ` set ''0123456789''"
    by simp
  also have "\<dots> \<longleftrightarrow> c \<in> set ''0123456789''"
    by (rule inj_image_mem_iff) (simp add: inj_on_def)
  finally show ?thesis by (simp add: is_digit_def)
qed

lemma email_class: "in_class True [WhiteSp, Ch CHR ''@''] c \<longleftrightarrow> \<not> is_space c \<and> c \<noteq> CHR ''@''"
  by (auto simp: in_class_def)

lemma digit_class: "in_class False [Digit] c \<longleftrightarrow> is_digit c"
  "in_class False [Rng CHR ''0'' CHR ''9''] c \<longleftrightarrow> is_digit c"
  using rng_digit[of c] by (auto simp: in_class_def)

lemma sep_class:
  "in_class False [Ch CHR ''-'', Ch CHR ''.'', WhiteSp] c \<longleftrightarrow>
     c = CHR ''-'' \<or> c = CHR ''.'' \<or> is_space c"
  by (auto simp: in_class_def)

lemma lang_email_part:
  "lang (some (OneOf True [WhiteSp, Ch CHR ''@''])) = {w. spec_email_part w}"
  by (simp add: lang_some_class email_class spec_email_part_def)

lemma lang_digits:
  "lang (rep n (OneOf False [Digit])) = {w. spec_digits n w}"
  "lang (rep n (OneOf False [Rng CHR ''0'' CHR ''9''])) = {w. spec_digits n w}"
  by (simp_all add: lang_rep_class digit_class spec_digits_def)

lemma lang_separator:
  "lang (opt (OneOf False [Ch CHR ''-'', Ch CHR ''.'', WhiteSp])) = {w. spec_separator w}"
  by (auto simp: lang_opt sep_class spec_separator_def)

lemma in_lang_seqs_Cons:
  "w \<in> lang (seqs (r # rs)) \<longleftrightarrow> (\<exists>u v. w = u @ v \<and> u \<in> lang r \<and> v \<in> lang (seqs rs))"
  unfolding lang_seqs_Cons by blast

lemma in_lang_seqs_Nil: "w \<in> lang (seqs []) \<longleftrightarrow> w = []"
  by simp

lemma email_rx_spec: "rx_test email_rx v \<longleftrightarrow> spec_email v"
  unfolding rx_test_lang email_rx_def spec_email_def
  by (simp add: in_lang_seqs_Cons in_lang_seqs_Nil lang_email_part lang_lit
        del: seqs.simps lit.simps) blast

lemma zip_rx_spec: "rx_test zip_rx v \<longleftrightarrow> spec_zip v"
proof -
  have "rx_test zip_rx v \<longleftrightarrow>
          (\<exists>u va. v = u @ va \<and> spec_digits 5 u \<and>
             (va = [] \<or> (\<exists>e. va = ''-'' @ e \<and> spec_digits 4 e)))"
    unfolding rx_test_lang zip_rx_def
    by (simp add: in_lang_seqs_Cons in_lang_seqs_Nil lang_digits lang_lit lang_opt
          del: seqs.simps lit.simps)
  also have "\<dots> \<longleftrightarrow> spec_zip v"
    unfolding spec_zip_def by auto
  finally show ?thesis .
qed

lemma in_lang_seqs_Cons2:
  "w \<in> lang (seqs (r # s # rs)) \<longleftrightarrow>
     (\<exists>u v. w = u @ v \<and> u \<in> lang r \<and> v \<in> lang (seqs (s # rs)))"
  by auto

lemma in_lang_opt_lit: "w \<in> lang (opt (lit s)) \<longleftrightarrow> w = [] \<or> w = s"
  by (auto simp: lang_opt lang_lit)

lemma in_lang_digits:
  "w \<in> lang (rep n (OneOf False [Rng CHR ''0'' CHR ''9''])) \<longleftrightarrow> spec_digits n w"
  by (simp add: lang_digits)

lemma in_lang_separator:
  "w \<in> lang (opt (OneOf False [Ch CHR ''-'', Ch CHR ''.'', WhiteSp])) \<longleftrightarrow> spec_separator w"
  by (simp add: lang_separator)

lemma flatten_seven:
  "(\<exists>p r1. v = p @ r1 \<and> P1 p \<and>
     (\<exists>a r2. r1 = a @ r2 \<and> P2 a \<and>
     (\<exists>q r3. r2 = q @ r3 \<and> P3 q \<and>
     (\<exists>s r4. r3 = s @ r4 \<and> P4 s \<and>
     (\<exists>b r5. r4 = b @ r5 \<and> P5 b \<and>
     (\<exists>t c. r5 = t @ c \<and> P6 t \<and> P7 c)))))) \<longleftrightarrow>
   (\<exists>p a q s b t c. v = p @ a @ q @ s @ b @ t @ c \<and>
      P1 p \<and> P2 a \<and> P3 q \<and> P4 s \<and> P5 b \<and> P6 t \<and> P7 c)"
  (is "?L \<longleftrightarrow> ?R")
proof
  assume ?L
  then obtain p r1 a r2 q r3 s r4 b r5 t c where
    "v = p @ r1" "P1 p" "r1 = a @ r2" "P2 a" "r2 = q @ r3" "P3 q" "r3 = s @ r4" "P4 s"
    "r4 = b @ r5" "P5 b" "r5 = t @ c" "P6 t" "P7 c"
    by (elim exE conjE)
  then have "v = p @ a @ q @ s @ b @ t @ c \<and> P1 p \<and> P2 a \<and> P3 q \<and> P4 s \<and> P5 b \<and> P6 t \<and> P7 c"
    by simp
  then show ?R by (intro exI)
next
  assume ?R
  then obtain p a q s b t c where v: "v = p @ a @ q @ s @ b @ t @ c"
    and P: "P1 p" "P2 a" "P3 q" "P4 s" "P5 b" "P6 t" "P7 c"
    by (elim exE conjE)
  show ?L
    unfolding v using P
    apply (intro exI conjI)
    apply (rule refl | assumption)+
    done
qed

lemma phone_rx_spec: "rx_test phone_rx v \<longleftrightarrow> spec_phone v"
proof -
  have "rx_test phone_rx v \<longleftrightarrow>
          (\<exists>p a q s b t c. v = p @ a @ q @ s @ b @ t @ c \<and>
             p \<in> lang (opt (lit ''('')) \<and>
             a \<in> lang (rep 3 (OneOf False [Rng CHR ''0'' CHR ''9''])) \<and>
             q \<in> lang (opt (lit '')'')) \<and>
             s \<in> lang (opt (OneOf False [Ch CHR ''-'', Ch CHR ''.'', WhiteSp])) \<and>
             b \<in> lang (rep 3 (OneOf False [Rng CHR ''0'' CHR ''9''])) \<and>
             t \<in> lang (opt (OneOf False [Ch CHR ''-'', Ch CHR ''.'', WhiteSp])) \<and>
             c \<in> lang (rep 4 (OneOf False [Rng CHR ''0'' CHR ''9''])))"
    unfolding rx_test_lang phone_rx_def
    by (simp only: in_lang_seqs_Cons2 seqs.simps(2) flatten_seven)
  also have "\<dots> \<longleftrightarrow> spec_phone v"
    unfolding spec_phone_def
    by (simp only: in_lang_opt_lit in_lang_digits in_lang_separator)
  finally show ?thesis .
qed

lemma required_spec: "length (js_trim v) > 0 \<longleftrightarrow> (\<exists>c\<in>set v. \<not> is_space c)"
proof -
  have a: "dropWhile is_space v = [] \<longleftrightarrow> (\<forall>c\<in>set v. is_space c)"
    by (simp add: dropWhile_eq_Nil_conv)
  have "js_trim v = [] \<longleftrightarrow> dropWhile is_space (rev (dropWhile is_space v)) = []"
    by (simp add: js_trim_def)
  also have "\<dots> \<longleftrightarrow> (\<forall>c\<in>set (dropWhile is_space v). is_space c)"
    by (simp add: dropWhile_eq_Nil_conv)
  also have "\<dots> \<longleftrightarrow> dropWhile is_space v = []"
  proof
    assume h: "\<forall>c\<in>set (dropWhile is_space v). is_space c"
    show "dropWhile is_space v = []"
    proof (rule ccontr)
      assume n: "dropWhile is_space v \<noteq> []"
      then have "\<not> is_space (hd (dropWhile is_space v))" by (rule hd_dropWhile)
      moreover have "hd (dropWhile is_space v) \<in> set (dropWhile is_space v)"
        using n by (rule hd_in_set)
      ultimately show False using h by blast
    qed
  next
    assume "dropWhile is_space v = []"
    then show "\<forall>c\<in>set (dropWhile is_space v). is_space c"
      by (simp del: dropWhile_eq_Nil_conv)
  qed
  finally have "js_trim v = [] \<longleftrightarrow> (\<forall>c\<in>set v. is_space c)" using a by simp
  then show ?thesis by auto
qed

section \<open>Properties of the FormValidator\<close>

subsection \<open>validateField\<close>

lemma failing_messages_append:
  "failing_messages (xs @ ys) =
     (case failing_messages xs of
        Inl e \<Rightarrow> Inl e
      | Inr a \<Rightarrow> (case failing_messages ys of Inl e \<Rightarrow> Inl e | Inr b \<Rightarrow> Inr (a @ b)))"
proof (induction xs)
  case Nil
  show ?case by (simp split: sum.splits)
next
  case (Cons x xs)
  then show ?case by (cases x) (auto split: sum.splits)
qed

lemma forEachType_spec:
  assumes "list_all (\<lambda>t. validators fv (fst (split_type t)) \<noteq> None \<or>
                          fst (split_type t) \<notin> set object_prototype_names) types"
  shows "forEachType fv pg value types errors =
     (case failing_messages (concat (map (spec_named_check fv pg value) types)) of
        Inl e \<Rightarrow> Inl e
      | Inr ms \<Rightarrow> Inr (errors @ map Str ms))"
  using assms
proof (induction types arbitrary: errors)
  case Nil
  show ?case by simp
next
  case (Cons t ts)
  have rest: "forEachType fv pg value ts errs =
     (case failing_messages (concat (map (spec_named_check fv pg value) ts)) of
        Inl e \<Rightarrow> Inl e
      | Inr ms \<Rightarrow> Inr (errs @ map Str ms))" for errs
    using Cons.prems by (intro Cons.IH) simp
  show ?case
  proof (cases "validators fv (fst (split_type t))")
    case None
    then have n: "fst (split_type t) \<notin> set object_prototype_names"
      using Cons.prems by simp
    have h: "spec_named_check fv pg value t = []"
      using None by (simp add: spec_named_check_def)
    show ?thesis
      using None n by (simp add: rest h split_beta)
  next
    case (Some v)
    show ?thesis
    proof (cases "fst (split_type t) = ''required''")
      case True
      have h: "spec_named_check fv pg value t = []"
        using Some True by (simp add: spec_named_check_def)
      show ?thesis
        using Some True by (simp add: rest h split_beta)
    next
      case False
      have h: "spec_named_check fv pg value t = [v pg value (snd (split_type t))]"
        using Some False by (simp add: spec_named_check_def)
      show ?thesis
      proof (cases "v pg value (snd (split_type t))")
        case (Inl e)
        with Some False show ?thesis
          by (simp add: h split_beta)
      next
        case (Inr r)
        with Some False show ?thesis
          by (simp add: rest h split_beta split: sum.splits)
      qed
    qed
  qed
qed

lemma checkRequired_spec:
  "checkRequired fv pg fld = as_entries (failing_messages (spec_required_check fv pg fld))"
  by (simp add: checkRequired_def spec_required_check_def as_entries_def
        split: option.splits sum.splits)

lemma checkHtml5_spec:
  "checkHtml5 pg fld errors =
     (case failing_messages (spec_html_checks pg fld) of
        Inl e \<Rightarrow> Inl e
      | Inr ms \<Rightarrow> Inr (errors @ map Str ms))"
proof (cases "field_pattern fld = []")
  case True
  then show ?thesis
    by (simp add: checkHtml5_def spec_html_checks_def Let_def)
next
  case False
  show ?thesis
  proof (cases "regexp_test pg (field_pattern fld) (field_value fld)")
    case None
    with False show ?thesis
      by (simp add: checkHtml5_def spec_html_checks_def Let_def)
  next
    case (Some b)
    with False show ?thesis
      by (simp add: checkHtml5_def spec_html_checks_def Let_def)
  qed
qed

lemma collectErrors_spec:
  assumes "names_validators_only fv fld"
  shows "collectErrors fv pg fld = as_entries (failing_messages (spec_checks fv pg fld))"
proof (cases "failing_messages (spec_required_check fv pg fld)")
  case (Inl e)
  then show ?thesis
    by (simp add: collectErrors_def spec_checks_def checkRequired_spec failing_messages_append
          as_entries_def)
next
  case (Inr a)
  show ?thesis
  proof (cases "js_trim (field_value fld) = []")
    case True
    with Inr show ?thesis
      by (simp add: collectErrors_def spec_checks_def checkRequired_spec as_entries_def)
  next
    case False
    have f: "forEachType fv pg (field_value fld) (validateTypes fld) errs =
       (case failing_messages
               (concat (map (spec_named_check fv pg (field_value fld)) (validateTypes fld))) of
          Inl e \<Rightarrow> Inl e
        | Inr ms \<Rightarrow> Inr (errs @ map Str ms))" for errs
      using assms unfolding names_validators_only_def by (rule forEachType_spec)
    from Inr False show ?thesis
      by (simp add: collectErrors_def spec_checks_def checkRequired_spec f
            checkHtml5_spec failing_messages_append as_entries_def split: sum.splits)
  qed
qed

lemma js_trim_nonempty: "js_trim v \<noteq> [] \<Longrightarrow> v \<noteq> []"
  by (auto simp: js_trim_def)

text \<open>
  For a field whose \<open>data-validate\<close> list names validators only, the error list
  \<open>validateField\<close> builds is the list of failing messages of the checks in the order of
  the specification: the required check first when it applies, then, only for a value
  that is not empty (the code asks for a value that is not empty once trimmed), every
  validator named in the list in the declared order, then the \<open>minlength\<close>, \<open>maxlength\<close>
  and \<open>pattern\<close> constraints. Unless a check throws, the call returns true exactly when
  that list is empty, stores the whole list in the state of the field, and an invalid
  field shows the first message of the list in its error container.
\<close>

lemma validateField_order:
  assumes "names_validators_only fv fld"
  shows "collectErrors fv pg fld = as_entries (failing_messages (spec_checks fv pg fld)) \<and>
   (js_trim (field_value fld) \<noteq> [] \<longrightarrow> field_value fld \<noteq> []) \<and>
   (case validateField fv pg fld of
      (outcome, fv', fld') \<Rightarrow>
        (case failing_messages (spec_checks fv pg fld) of
           Inl e \<Rightarrow> outcome = Inl e
         | Inr errors \<Rightarrow>
             outcome = Inr (errors = []) \<and>
             fieldStates fv' (field_id fld) =
               Some \<lparr>touched = True, state_valid = (errors = []),
                     state_errors = map Str errors\<rparr> \<and>
             (errors \<noteq> [] \<and> errorContainer fld \<noteq> None \<longrightarrow>
                errorContainer fld' = Some (Str (hd errors), ''block''))))"
proof -
  have 1: "collectErrors fv pg fld = as_entries (failing_messages (spec_checks fv pg fld))"
    using assms by (rule collectErrors_spec)
  have 2: "js_trim (field_value fld) \<noteq> [] \<longrightarrow> field_value fld \<noteq> []"
    using js_trim_nonempty by blast
  have 3: "case validateField fv pg fld of
      (outcome, fv', fld') \<Rightarrow>
        (case failing_messages (spec_checks fv pg fld) of
           Inl e \<Rightarrow> outcome = Inl e
         | Inr errors \<Rightarrow>
             outcome = Inr (errors = []) \<and>
             fieldStates fv' (field_id fld) =
               Some \<lparr>touched = True, state_valid = (errors = []),
                     state_errors = map Str errors\<rparr> \<and>
             (errors \<noteq> [] \<and> errorContainer fld \<noteq> None \<longrightarrow>
                errorContainer fld' = Some (Str (hd errors), ''block'')))"
  proof (cases "failing_messages (spec_checks fv pg fld)")
    case (Inl e)
    then show ?thesis
      using 1 by (simp add: validateField_def Let_def as_entries_def)
  next
    case (Inr errors)
    then have c: "collectErrors fv pg fld = Inr (map Str errors)"
      using 1 by (simp add: as_entries_def)
    show ?thesis
      unfolding Inr using c
      by (cases errors)
         (auto simp: validateField_def Let_def updateFieldUI_def first_or_empty_def)
  qed
  from 1 2 3 show ?thesis by blast
qed

lemma validateField_order_example:
  "failing_messages (spec_checks new_FormValidator example_page_env
      (example_field ''bad'' True ''email minLength:5 zip'')) =
     Inr [''Please enter a valid email address'', ''Must be at least 5 characters'',
          ''Please enter a valid ZIP code (e.g., 75701 or 75701-1234)'',
          ''Must be at least 8 characters''] \<and>
   collectErrors new_FormValidator example_page_env
      (example_field ''bad'' True ''email minLength:5 zip'') =
     Inr [Str ''Please enter a valid email address'', Str ''Must be at least 5 characters'',
          Str ''Please enter a valid ZIP code (e.g., 75701 or 75701-1234)'',
          Str ''Must be at least 8 characters''] \<and>
   fst (validateField new_FormValidator example_page_env
          (example_field ''bad'' True ''email minLength:5 zip'')) = Inr False \<and>
   errorContainer (snd (snd (validateField new_FormValidator example_page_env
          (example_field ''bad'' True ''email minLength:5 zip'')))) =
     Some (Str ''Please enter a valid email address'', ''block'')"
  by code_simp

text \<open>
  Claim C6. \<open>validateField\<close> is to run, after the required check, every validator named
  in the \<open>data-validate\<close> list and the HTML constraints, to collect the failing messages
  and to return true exactly when there is none. The loop skips a name that
  \<open>this.validators[validatorName]\<close> does not find, but the lookup also finds the members
  of \<open>Object.prototype\<close>. For a field that is not required, holds \<open>12345678\<close> and declares
  \<open>data-validate="toString"\<close>, no validator is named and no constraint fails, so the
  checks of the specification leave no message; the code calls
  \<open>Object.prototype.toString\<close>, pushes \<open>undefined\<close> and returns false, with an empty text
  in the error container. With \<open>data-validate="__proto__"\<close> the call throws a
  \<open>TypeError\<close> and \<open>validateField\<close> does not return.
\<close>

theorem C6_inherited_member_called:
  "failing_messages (spec_checks new_FormValidator example_page_env
      (example_field ''12345678'' False ''toString'')) = Inr [] \<and>
   collectErrors new_FormValidator example_page_env
      (example_field ''12345678'' False ''toString'') = Inr [Undefined] \<and>
   fst (validateField new_FormValidator example_page_env
          (example_field ''12345678'' False ''toString'')) = Inr False \<and>
   errorContainer (snd (snd (validateField new_FormValidator example_page_env
          (example_field ''12345678'' False ''toString'')))) = Some (Str [], ''block'') \<and>
   failing_messages (spec_checks new_FormValidator example_page_env
      (example_field ''12345678'' False ''__proto__'')) = Inr [] \<and>
   fst (validateField new_FormValidator example_page_env
          (example_field ''12345678'' False ''__proto__'')) = Inl TypeError"
  by code_simp



subsection \<open>The built-in validators\<close>

lemma validator_examples:
  "rx_test email_rx ''a@b.co''" "\<not> rx_test email_rx ''bad''"
  "rx_test zip_rx ''75701''" "\<not> rx_test zip_rx ''757''"
  "rx_test phone_rx ''903-555-1234''"
  by code_simp+

lemma builtin_table:
  "builtin_validators ''required'' = Some validator_required"
  "builtin_validators ''email'' = Some validator_email"
  "builtin_validators ''zip'' = Some validator_zip"
  "builtin_validators ''phone'' = Some validator_phone"
  by (simp_all add: builtin_validators_def)

text \<open>
  Claim C7. The entries \<open>required\<close>, \<open>email\<close>, \<open>zip\<close> and \<open>phone\<close> of the validator table
  always return a result object, which depends on the value only. \<open>required\<close> accepts
  exactly the values with a code unit that is not white space (the values that are not
  empty once trimmed); \<open>email\<close>, \<open>zip\<close> and \<open>phone\<close> accept exactly the values of the
  shape their patterns describe. \<open>a@b.co\<close> is a valid email and \<open>bad\<close> is not, \<open>75701\<close> is
  a valid ZIP code and \<open>757\<close> is not, \<open>903-555-1234\<close> is a valid phone number.
\<close>

theorem C7_builtin_validators:
  "builtin_validators ''required'' = Some validator_required \<and>
   builtin_validators ''email'' = Some validator_email \<and>
   builtin_validators ''zip'' = Some validator_zip \<and>
   builtin_validators ''phone'' = Some validator_phone \<and>
   validator_required pg v p =
     Inr \<lparr>valid = (\<exists>c\<in>set v. \<not> is_space c), message = ''This field is required''\<rparr> \<and>
   validator_email pg v p =
     Inr \<lparr>valid = spec_email v, message = ''Please enter a valid email address''\<rparr> \<and>
   validator_zip pg v p =
     Inr \<lparr>valid = spec_zip v,
          message = ''Please enter a valid ZIP code (e.g., 75701 or 75701-1234)''\<rparr> \<and>
   validator_phone pg v p =
     Inr \<lparr>valid = spec_phone v,
          message = ''Please enter a valid phone number (e.g., 903-555-1234)''\<rparr> \<and>
   spec_email ''a@b.co'' \<and> \<not> spec_email ''bad'' \<and>
   spec_zip ''75701'' \<and> \<not> spec_zip ''757'' \<and> spec_phone ''903-555-1234''"
proof -
  have r: "validator_required pg v p =
     Inr \<lparr>valid = (\<exists>c\<in>set v. \<not> is_space c), message = ''This field is required''\<rparr>"
    unfolding validator_required_def required_spec ..
  have e: "validator_email pg v p =
     Inr \<lparr>valid = spec_email v, message = ''Please enter a valid email address''\<rparr>"
    unfolding validator_email_def email_rx_spec ..
  have z: "validator_zip pg v p =
     Inr \<lparr>valid = spec_zip v,
          message = ''Please enter a valid ZIP code (e.g., 75701 or 75701-1234)''\<rparr>"
    unfolding validator_zip_def zip_rx_spec ..
  have ph: "validator_phone pg v p =
     Inr \<lparr>valid = spec_phone v,
          message = ''Please enter a valid phone number (e.g., 903-555-1234)''\<rparr>"
    unfolding validator_phone_def phone_rx_spec ..
  have x: "spec_email ''a@b.co''" "\<not> spec_email ''bad''"
    "spec_zip ''75701''" "\<not> spec_zip ''757''" "spec_phone ''903-555-1234''"
    using validator_examples
    unfolding email_rx_spec zip_rx_spec phone_rx_spec by blast+
  from builtin_table r e z ph x show ?thesis by blast
qed

theorem C7_builtin_validators_witness:
  "validator_email example_page_env ''a@b.co'' None =
     Inr \<lparr>valid = True, message = ''Please enter a valid email address''\<rparr> \<and>
   spec_email ''a@b.co'' \<and>
   validator_zip example_page_env ''757'' None =
     Inr \<lparr>valid = False,
          message = ''Please enter a valid ZIP code (e.g., 75701 or 75701-1234)''\<rparr> \<and>
   validator_required example_page_env '' x '' None =
     Inr \<lparr>valid = True, message = ''This field is required''\<rparr> \<and>
   (\<exists>c\<in>set '' x ''. \<not> is_space c)"
proof -
  have 1: "validator_email example_page_env ''a@b.co'' None =
     Inr \<lparr>valid = True, message = ''Please enter a valid email address''\<rparr>"
    by code_simp
  have 2: "validator_zip example_page_env ''757'' None =
     Inr \<lparr>valid = False,
          message = ''Please enter a valid ZIP code (e.g., 75701 or 75701-1234)''\<rparr>"
    by code_simp
  have 3: "validator_required example_page_env '' x '' None =
     Inr \<lparr>valid = True, message = ''This field is required''\<rparr>"
    by code_simp
  note C7 = C7_builtin_validators [of example_page_env "'' x ''" None]
  have 4: "\<exists>c\<in>set '' x ''. \<not> is_space c"
    using C7 3 by simp
  have 5: "spec_email ''a@b.co''"
    using C7 by blast
  from 1 2 3 4 5 show ?thesis by blast
qed

section \<open>Properties of the Accordion\<close>

lemma close_acc_frame [simp]:
  "length (items (close_acc i an a)) = length (items a)"
  "allowMultiple (close_acc i an a) = allowMultiple a"
  "onToggle (close_acc i an a) = onToggle a"
  by (simp_all add: close_acc_def update_item_def animateClose_def Let_def)

lemma close_acc_isOpen:
  "j < length (items a) \<Longrightarrow>
   isOpen (items (close_acc i an a) ! j) = (if int j = i then False else isOpen (items a ! j))"
  by (auto simp: close_acc_def update_item_def animateClose_def Let_def nth_list_update)

lemma close_acc_calls:
  "toggleCalls (close_acc i an a) =
     toggleCalls a @
     (if 0 \<le> i \<and> i < int (length (items a)) \<and> isOpen (items a ! nat i) \<and> onToggle a
      then [(i, False)] else [])"
  by (simp add: close_acc_def update_item_def animateClose_def Let_def)

lemma closeOthers_prefix:
  assumes "k \<le> length (items a)"
  shows "length (items (foldl (others_step idx an) a [0..<k])) = length (items a) \<and>
         allowMultiple (foldl (others_step idx an) a [0..<k]) = allowMultiple a \<and>
         onToggle (foldl (others_step idx an) a [0..<k]) = onToggle a \<and>
         (\<forall>j<length (items a).
            isOpen (items (foldl (others_step idx an) a [0..<k]) ! j) =
              (if j < k \<and> int j \<noteq> idx then False else isOpen (items a ! j))) \<and>
         toggleCalls (foldl (others_step idx an) a [0..<k]) =
           toggleCalls a @
           (if onToggle a
            then map (\<lambda>j. (int j, False))
                   (filter (\<lambda>j. int j \<noteq> idx \<and> isOpen (items a ! j)) [0..<k])
            else [])"
  using assms
proof (induction k)
  case 0
  show ?case by simp
next
  case (Suc k)
  let ?g = "foldl (others_step idx an) a [0..<k]"
  have k: "k < length (items a)" using Suc.prems by simp
  have IH: "length (items ?g) = length (items a)" "allowMultiple ?g = allowMultiple a"
    "onToggle ?g = onToggle a"
    "\<forall>j<length (items a). isOpen (items ?g ! j) =
        (if j < k \<and> int j \<noteq> idx then False else isOpen (items a ! j))"
    "toggleCalls ?g = toggleCalls a @
           (if onToggle a
            then map (\<lambda>j. (int j, False))
                   (filter (\<lambda>j. int j \<noteq> idx \<and> isOpen (items a ! j)) [0..<k])
            else [])"
    using Suc.IH k by simp_all
  have gk: "isOpen (items ?g ! k) = isOpen (items a ! k)" using IH(4) k by simp
  have step: "foldl (others_step idx an) a [0..<Suc k] = others_step idx an ?g k"
    by simp
  show ?case
  proof (cases "int k \<noteq> idx \<and> isOpen (items a ! k)")
    case True
    then have s: "others_step idx an ?g k = close_acc (int k) an ?g"
      using gk by (simp add: others_step_def)
    show ?thesis
      unfolding step s
      using IH k True gk by (auto simp: close_acc_isOpen close_acc_calls)
  next
    case False
    then have s: "others_step idx an ?g k = ?g"
      using gk by (auto simp: others_step_def)
    show ?thesis
      unfolding step s
      using IH k False by (auto simp: less_Suc_eq)
  qed
qed

lemma closeOthers_props:
  "length (items (closeOthers idx an a)) = length (items a)"
  "allowMultiple (closeOthers idx an a) = allowMultiple a"
  "onToggle (closeOthers idx an a) = onToggle a"
  "j < length (items a) \<Longrightarrow>
     isOpen (items (closeOthers idx an a) ! j) = (int j = idx \<and> isOpen (items a ! j))"
  "toggleCalls (closeOthers idx an a) =
     toggleCalls a @
     (if onToggle a
      then map (\<lambda>j. (int j, False))
             (filter (\<lambda>j. int j \<noteq> idx \<and> isOpen (items a ! j)) [0..<length (items a)])
      else [])"
  using closeOthers_prefix[of "length (items a)" a idx an]
  by (auto simp: closeOthers_def)

lemma open_acc_frame [simp]:
  "length (items (open_acc i an a)) = length (items a)"
  "allowMultiple (open_acc i an a) = allowMultiple a"
  "onToggle (open_acc i an a) = onToggle a"
  by (simp_all add: open_acc_def update_item_def animateOpen_def Let_def closeOthers_props)

lemma open_acc_isOpen:
  assumes "j < length (items a)"
  shows "isOpen (items (open_acc idx an a) ! j) =
     (if 0 \<le> idx \<and> idx < int (length (items a)) \<and> \<not> isOpen (items a ! nat idx)
      then int j = idx \<or> (allowMultiple a \<and> isOpen (items a ! j))
      else isOpen (items a ! j))"
proof (cases "0 \<le> idx \<and> idx < int (length (items a)) \<and> \<not> isOpen (items a ! nat idx)")
  case False
  then show ?thesis by (auto simp: open_acc_def)
next
  case True
  then have n: "nat idx < length (items a)" by (simp add: nat_less_iff)
  have e: "int j = idx \<longleftrightarrow> j = nat idx" using True by auto
  show ?thesis
    using True assms n
    by (auto simp: open_acc_def update_item_def animateOpen_def Let_def closeOthers_props
          nth_list_update e)
qed

lemma open_acc_calls:
  "toggleCalls (open_acc idx an a) =
     toggleCalls a @
     (if 0 \<le> idx \<and> idx < int (length (items a)) \<and> \<not> isOpen (items a ! nat idx) \<and> onToggle a
      then (if \<not> allowMultiple a
            then map (\<lambda>j. (int j, False))
                   (filter (\<lambda>j. int j \<noteq> idx \<and> isOpen (items a ! j)) [0..<length (items a)])
            else []) @ [(idx, True)]
      else [])"
  by (simp add: open_acc_def update_item_def animateOpen_def Let_def closeOthers_props)

lemma single_ok_open: "single_ok a \<Longrightarrow> single_ok (open_acc idx an a)"
  unfolding single_ok_def at_most_one_def
  by (auto simp: open_acc_isOpen split: if_splits)

lemma single_ok_close: "single_ok a \<Longrightarrow> single_ok (close_acc idx an a)"
  unfolding single_ok_def at_most_one_def
  by (auto simp: close_acc_isOpen split: if_splits)

lemma single_ok_toggle: "single_ok a \<Longrightarrow> single_ok (toggle_acc idx a)"
  by (simp add: toggle_acc_def single_ok_open single_ok_close)

lemma single_ok_foldl:
  "(\<And>b x. single_ok b \<Longrightarrow> single_ok (f b x)) \<Longrightarrow> single_ok a \<Longrightarrow> single_ok (foldl f a xs)"
  by (induction xs arbitrary: a) simp_all

lemma single_ok_init: "single_ok (init_acc n multiple callback defaultOpen)"
  unfolding init_acc_def
proof (rule single_ok_foldl)
  fix b :: accordion and x :: int
  assume "single_ok b"
  then show "single_ok (if 0 \<le> x \<and> x < int (length (items b)) then open_acc x False b else b)"
    by (simp add: single_ok_open)
next
  show "single_ok \<lparr>items = replicate n closed_item, allowMultiple = multiple,
          onToggle = callback, toggleCalls = [], animationTimers = []\<rparr>"
    by (simp add: single_ok_def at_most_one_def closed_item_def)
qed

lemma reachable_single_ok: "acc_reachable a \<Longrightarrow> single_ok a"
proof (induction rule: acc_reachable.induct)
  case (a_init n multiple callback defaultOpen)
  show ?case by (rule single_ok_init)
next
  case (a_openAll acc)
  then show ?case unfolding openAll_def by (intro single_ok_foldl single_ok_open)
next
  case (a_closeAll acc)
  then show ?case unfolding closeAll_def by (intro single_ok_foldl single_ok_close)
next
  case (a_destroy acc)
  then show ?case by (simp add: single_ok_def at_most_one_def destroy_acc_def)
qed (simp_all add: single_ok_open single_ok_close single_ok_toggle)

lemma at_most_one_filter:
  "(\<forall>i<length xs. \<forall>j<length xs. P (xs ! i) \<and> P (xs ! j) \<longrightarrow> i = j) \<Longrightarrow>
   length (filter P xs) \<le> 1"
proof (induction xs)
  case Nil
  show ?case by simp
next
  case (Cons x xs)
  have tl: "\<forall>i<length xs. \<forall>j<length xs. P (xs ! i) \<and> P (xs ! j) \<longrightarrow> i = j"
  proof (intro allI impI)
    fix i j assume "i < length xs" "j < length xs" "P (xs ! i) \<and> P (xs ! j)"
    then have "Suc i = Suc j" using Cons.prems[rule_format, of "Suc i" "Suc j"] by simp
    then show "i = j" by simp
  qed
  show ?case
  proof (cases "P x")
    case False
    then show ?thesis using Cons.IH[OF tl] by simp
  next
    case True
    have "\<not> P y" if "y \<in> set xs" for y
    proof
      assume "P y"
      from that obtain i where "i < length xs" "xs ! i = y" by (auto simp: in_set_conv_nth)
      then have "0 = Suc i" using Cons.prems[rule_format, of 0 "Suc i"] True \<open>P y\<close> by simp
      then show False by simp
    qed
    then have "filter P xs = []" by (simp add: filter_empty_conv)
    then show ?thesis using True by simp
  qed
qed

lemma at_most_one_count: "at_most_one a \<Longrightarrow> open_count a \<le> 1"
  unfolding at_most_one_def open_count_def by (rule at_most_one_filter)

lemma filter_single:
  "a < n \<Longrightarrow> Q a \<Longrightarrow> (\<forall>j<n. Q j \<longrightarrow> j = a) \<Longrightarrow> filter Q [0..<n] = [a]"
proof (induction n)
  case 0
  then show ?case by simp
next
  case (Suc n)
  show ?case
  proof (cases "a = n")
    case True
    have "\<not> Q j" if "j < n" for j
      using Suc.prems(3)[rule_format, of j] that True by auto
    then have "\<forall>j\<in>set [0..<n]. \<not> Q j" by simp
    then have "filter Q [0..<n] = []" by (simp add: filter_empty_conv)
    then show ?thesis using True Suc.prems(2) by simp
  next
    case False
    then have "a < n" using Suc.prems(1) by simp
    moreover have "\<forall>j<n. Q j \<longrightarrow> j = a" using Suc.prems(3) by simp
    ultimately have "filter Q [0..<n] = [a]" using Suc.prems(2) by (intro Suc.IH)
    moreover have "\<not> Q n" using Suc.prems(3) False by auto
    ultimately show ?thesis by simp
  qed
qed

lemma count_pos: "i < length xs \<Longrightarrow> P (xs ! i) \<Longrightarrow> 0 < length (filter P xs)"
  by (auto simp: filter_empty_conv)

lemma open_other_panel:
  assumes r: "acc_reachable acc" and s: "\<not> allowMultiple acc" and cb: "onToggle acc"
    and A: "0 \<le> A" "A < int (length (items acc))"
    and B: "0 \<le> B" "B < int (length (items acc))"
    and ne: "A \<noteq> B" and oa: "isOpen (items acc ! nat A)"
  shows "\<not> isOpen (items (open_acc B an acc) ! nat A)"
    and "isOpen (items (open_acc B an acc) ! nat B)"
    and "open_count (open_acc B an acc) = 1"
    and "toggleCalls (open_acc B an acc) = toggleCalls acc @ [(A, False), (B, True)]"
    and "open_count (closeOthers B an acc) = 0"
proof -
  let ?n = "length (items acc)"
  have amo: "at_most_one acc" using reachable_single_ok[OF r] s by (simp add: single_ok_def)
  have nA: "nat A < ?n" and nB: "nat B < ?n" using A B by (simp_all add: nat_less_iff)
  have nne: "nat A \<noteq> nat B" using A B ne by simp
  have cB: "\<not> isOpen (items acc ! nat B)"
    using amo nA nB nne oa unfolding at_most_one_def by blast
  have go: "0 \<le> B \<and> B < int ?n \<and> \<not> isOpen (items acc ! nat B)" using B cB by simp
  have after: "isOpen (items (open_acc B an acc) ! j) = (int j = B)" if "j < ?n" for j
    using open_acc_isOpen[OF that, of B an] go s by simp
  show "\<not> isOpen (items (open_acc B an acc) ! nat A)"
    using after[OF nA] A ne by simp
  show oB: "isOpen (items (open_acc B an acc) ! nat B)"
    using after[OF nB] B by simp
  have "open_count (open_acc B an acc) \<le> 1"
    using single_ok_open[OF reachable_single_ok[OF r], of B an] s
      at_most_one_count[of "open_acc B an acc"]
    by (simp add: single_ok_def)
  moreover have "0 < open_count (open_acc B an acc)"
    unfolding open_count_def using nB oB by (intro count_pos[of "nat B"]) simp_all
  ultimately show "open_count (open_acc B an acc) = 1" by simp
  have only: "\<forall>j<?n. int j \<noteq> B \<and> isOpen (items acc ! j) \<longrightarrow> j = nat A"
    using amo nA oa unfolding at_most_one_def by blast
  have qa: "int (nat A) \<noteq> B \<and> isOpen (items acc ! nat A)" using A ne oa by simp
  have f: "filter (\<lambda>j. int j \<noteq> B \<and> isOpen (items acc ! j)) [0..<?n] = [nat A]"
    using filter_single[of "nat A" ?n "\<lambda>j. int j \<noteq> B \<and> isOpen (items acc ! j)", OF nA qa only] .
  show "toggleCalls (open_acc B an acc) = toggleCalls acc @ [(A, False), (B, True)]"
    unfolding open_acc_calls f using go s cb A by simp
  have "\<forall>x\<in>set (items (closeOthers B an acc)). \<not> isOpen x"
  proof
    fix x assume "x \<in> set (items (closeOthers B an acc))"
    then obtain j where j: "j < ?n" "items (closeOthers B an acc) ! j = x"
      by (auto simp: in_set_conv_nth closeOthers_props)
    have "\<not> isOpen (items (closeOthers B an acc) ! j)"
      using closeOthers_props(4)[OF j(1), of B an] cB B by auto
    then show "\<not> isOpen x" using j by simp
  qed
  then show "open_count (closeOthers B an acc) = 0"
    by (simp add: open_count_def filter_empty_conv)
qed

text \<open>
  Claim C8. In single-open mode (\<open>allowMultiple\<close> false) no state the accordion can reach
  has more than one open panel. Opening panel \<open>B\<close> while another panel \<open>A\<close> is open
  closes \<open>A\<close> first (after the closing loop no panel is open) and then opens \<open>B\<close>: \<open>B\<close> is
  the one open panel afterwards, and \<open>onToggle\<close> was called exactly twice, with
  \<open>(A, false)\<close> and then with \<open>(B, true)\<close>.
\<close>

theorem C8_single_open:
  "(acc_reachable acc \<and> \<not> allowMultiple acc \<longrightarrow> open_count acc \<le> 1) \<and>
   (acc_reachable acc \<and> \<not> allowMultiple acc \<and> onToggle acc \<and>
    0 \<le> A \<and> A < int (length (items acc)) \<and> 0 \<le> B \<and> B < int (length (items acc)) \<and>
    A \<noteq> B \<and> isOpen (items acc ! nat A) \<longrightarrow>
      open_count (closeOthers B animate acc) = 0 \<and>
      \<not> isOpen (items (open_acc B animate acc) ! nat A) \<and>
      isOpen (items (open_acc B animate acc) ! nat B) \<and>
      open_count (open_acc B animate acc) = 1 \<and>
      toggleCalls (open_acc B animate acc) = toggleCalls acc @ [(A, False), (B, True)])"
proof -
  have 1: "open_count acc \<le> 1" if "acc_reachable acc" "\<not> allowMultiple acc"
    using reachable_single_ok[OF that(1)] that(2) at_most_one_count[of acc]
    by (simp add: single_ok_def)
  have 2: "open_count (closeOthers B animate acc) = 0 \<and>
      \<not> isOpen (items (open_acc B animate acc) ! nat A) \<and>
      isOpen (items (open_acc B animate acc) ! nat B) \<and>
      open_count (open_acc B animate acc) = 1 \<and>
      toggleCalls (open_acc B animate acc) = toggleCalls acc @ [(A, False), (B, True)]"
    if "acc_reachable acc" "\<not> allowMultiple acc" "onToggle acc"
       "0 \<le> A" "A < int (length (items acc))" "0 \<le> B" "B < int (length (items acc))"
       "A \<noteq> B" "isOpen (items acc ! nat A)"
    using open_other_panel[OF that] by simp
  from 1 2 show ?thesis by blast
qed

theorem C8_single_open_witness:
  "acc_reachable (init_acc 3 False True [0]) \<and>
   \<not> allowMultiple (init_acc 3 False True [0]) \<and> onToggle (init_acc 3 False True [0]) \<and>
   isOpen (items (init_acc 3 False True [0]) ! nat 0) \<and>
   open_count (init_acc 3 False True [0]) \<le> 1 \<and>
   map isOpen (items (open_acc 2 True (init_acc 3 False True [0]))) = [False, False, True] \<and>
   open_count (open_acc 2 True (init_acc 3 False True [0])) = 1 \<and>
   toggleCalls (open_acc 2 True (init_acc 3 False True [0])) =
     [(0, True), (0, False), (2, True)]"
proof -
  let ?a = "init_acc 3 False True [0]"
  have r: "acc_reachable ?a" by (rule a_init)
  have h: "\<not> allowMultiple ?a" "onToggle ?a" "isOpen (items ?a ! nat 0)"
    "(0::int) < int (length (items ?a))" "(2::int) < int (length (items ?a))"
    "toggleCalls ?a = [(0, True)]"
    by code_simp+
  have m: "map isOpen (items (open_acc 2 True ?a)) = [False, False, True]"
    by code_simp
  note C8 = C8_single_open [of ?a 0 2 True]
  have "open_count ?a \<le> 1" using C8 r h(1) by blast
  moreover have "open_count (open_acc 2 True ?a) = 1 \<and>
      toggleCalls (open_acc 2 True ?a) = toggleCalls ?a @ [(0, False), (2, True)]"
    using C8 [THEN conjunct2] r h by simp
  ultimately show ?thesis using r h m by simp
qed

end
